theory Spec2Isabelle
  imports Main "HOL-Library.Word"
begin

unbundle bit_operations_syntax

section \<open>Run-time failures\<close>

text \<open>
  A Go panic is a value: every function that can panic returns \<open>panic + 'a\<close>,
  with \<open>Inl\<close> for the panic. \<open>IndexOutOfRange\<close> and \<open>SliceBoundsOutOfRange\<close> are
  the run-time panics of indexing and slicing, \<open>MakeLenOutOfRange\<close> the one of
  \<open>make\<close> with a negative length, \<open>PanicMsg\<close> an explicit \<open>panic("...")\<close>.
\<close>

datatype panic = IndexOutOfRange | SliceBoundsOutOfRange | MakeLenOutOfRange | PanicMsg string

definition and_then :: "panic + 'a \<Rightarrow> ('a \<Rightarrow> panic + 'b) \<Rightarrow> panic + 'b" where
  "and_then m k = (case m of Inl e \<Rightarrow> Inl e | Inr v \<Rightarrow> k v)"

type_synonym byte = char
type_synonym uint8 = "8 word"
type_synonym int32 = "32 word"
type_synonym rune = "32 word"

text \<open>
  Go's \<open>int\<close> is 64 bits wide on the platforms this package builds for (it uses the Linux
  ioctl interface). Values of type \<open>int\<close> are modelled as HOL integers and \<open>wrap64\<close>
  is the two's-complement wrap-around of an arithmetic result.
\<close>

definition wrap64 :: "int \<Rightarrow> int" where
  "wrap64 i = (i + 2 ^ 63) mod 2 ^ 64 - 2 ^ 63"

definition in_int64 :: "int \<Rightarrow> bool" where
  "in_int64 i \<longleftrightarrow> - (2 ^ 63) \<le> i \<and> i < 2 ^ 63"

section \<open>Key decoder (package console)\<close>

text \<open>
  The key codes. \<open>K_UP = 0xE000 + iota\<close> is the fifth constant of its block, so
  \<open>iota\<close> is 4 there and the following constants count on from it.
\<close>

definition K_TAB :: int32 where "K_TAB = 9"
definition K_ENTER :: int32 where "K_ENTER = 13"
definition K_ESCAPE :: int32 where "K_ESCAPE = 27"
definition K_BACKSPACE :: int32 where "K_BACKSPACE = 127"
definition K_UP :: int32 where "K_UP = 0xE000 + 4"
definition K_DOWN :: int32 where "K_DOWN = 0xE000 + 5"
definition K_RIGHT :: int32 where "K_RIGHT = 0xE000 + 6"
definition K_LEFT :: int32 where "K_LEFT = 0xE000 + 7"
definition K_HOME :: int32 where "K_HOME = 0xE000 + 8"
definition K_END :: int32 where "K_END = 0xE000 + 9"
definition K_PAGEUP :: int32 where "K_PAGEUP = 0xE000 + 10"
definition K_PAGEDOWN :: int32 where "K_PAGEDOWN = 0xE000 + 11"
definition K_INSERT :: int32 where "K_INSERT = 0xE000 + 12"
definition K_DELETE :: int32 where "K_DELETE = 0xE000 + 13"

text \<open>Indexing \<open>buf[i]\<close> and slicing \<open>buf[i:]\<close> of a byte slice, with their panics.\<close>

definition byte_at :: "byte list \<Rightarrow> nat \<Rightarrow> panic + byte" where
  "byte_at buf i = (if i < length buf then Inr (buf ! i) else Inl IndexOutOfRange)"

definition bytes_from :: "byte list \<Rightarrow> nat \<Rightarrow> panic + byte list" where
  "bytes_from buf i = (if i \<le> length buf then Inr (drop i buf) else Inl SliceBoundsOutOfRange)"

definition parseSS3 :: "byte list \<Rightarrow> panic + int32" where
  "parseSS3 buf =
     (if length buf < 1 then Inr 0
      else and_then (byte_at buf 0) (\<lambda>b.
        if b = CHR ''H'' then Inr K_HOME
        else if b = CHR ''F'' then Inr K_END
        else Inr 0))"

definition parseCSI :: "byte list \<Rightarrow> panic + int32" where
  "parseCSI buf =
     (if length buf < 1 then Inr 0
      else if buf = ''A'' then Inr K_UP
      else if buf = ''B'' then Inr K_DOWN
      else if buf = ''C'' then Inr K_RIGHT
      else if buf = ''D'' then Inr K_LEFT
      else if buf = ''2~'' then Inr K_INSERT
      else if buf = ''3~'' then Inr K_DELETE
      else if buf = ''5~'' then Inr K_PAGEUP
      else if buf = ''6~'' then Inr K_PAGEDOWN
      else Inr 0)"

definition parseESC :: "byte list \<Rightarrow> panic + int32" where
  "parseESC buf =
     (if length buf < 1 then Inr K_ESCAPE
      else and_then (byte_at buf 0) (\<lambda>b.
        if b = CHR ''['' then and_then (bytes_from buf 1) parseCSI
        else if b = CHR ''O'' then and_then (bytes_from buf 1) parseSS3
        else Inr 0))"

definition parseKey :: "byte list \<Rightarrow> panic + int32" where
  "parseKey buf =
     (if length buf < 1 then Inr 0
      else and_then (byte_at buf 0) (\<lambda>b.
        if b = CHR 0x1B then and_then (bytes_from buf 1) parseESC
        else Inr (of_char b)))"

section \<open>Colours and escape strings (package console)\<close>

definition ESC :: string where "ESC = [CHR 0x1B]"
definition CSI :: string where "CSI = ESC @ ''[''"

text \<open>
  \<open>strconv.FormatInt(i, 10)\<close> of the Go library: the decimal digits of \<open>i\<close>, most
  significant first, after a minus sign when \<open>i\<close> is negative.
\<close>

definition digit_char :: "nat \<Rightarrow> char" where
  "digit_char d = char_of (48 + d)"

fun FormatUint :: "nat \<Rightarrow> string" where
  "FormatUint n =
     (if n < 10 then [digit_char n] else FormatUint (n div 10) @ [digit_char (n mod 10)])"

declare FormatUint.simps [simp del]

definition FormatInt :: "int \<Rightarrow> string" where
  "FormatInt i = (if i < 0 then CHR ''-'' # FormatUint (nat (- i)) else FormatUint (nat i))"

definition RESET :: uint8 where "RESET = 0"
definition BLACK :: uint8 where "BLACK = 0"
definition RED :: uint8 where "RED = 1"

record Color =
  Attr :: uint8
  Fore :: uint8
  Back :: uint8

definition FormatColor :: "uint8 \<Rightarrow> uint8 \<Rightarrow> uint8 \<Rightarrow> panic + string" where
  "FormatColor attr fore back =
     (if attr < 0 \<or> attr > 8 then Inl (PanicMsg ''colorString: invalid attribute'')
      else if fore < 0 \<or> fore > 7 then Inl (PanicMsg ''colorString: invalid foreground colour'')
      else if back < 0 \<or> back > 7 then Inl (PanicMsg ''colorString: invalid background colour'')
      else
        (let astring = FormatInt (uint attr);
             fstring = FormatInt (uint (fore + 30));
             bstring = FormatInt (uint (back + 40))
         in Inr (CSI @ astring @ '';'' @ fstring @ '';'' @ bstring @ ''m'')))"

definition Color_String :: "Color \<Rightarrow> panic + string" where
  "Color_String c = FormatColor (Attr c) (Fore c) (Back c)"

definition FormatMoveTo :: "int \<Rightarrow> int \<Rightarrow> string" where
  "FormatMoveTo line column =
     (let lstring = FormatInt line;
          cstring = FormatInt column
      in CSI @ lstring @ '';'' @ cstring @ ''H'')"

section \<open>Points and rectangles (package image of the Go library)\<close>

text \<open>
  \<open>image.Point\<close> and \<open>image.Rectangle\<close> with the methods the frame uses:
  \<open>Dx\<close>, \<open>Dy\<close>, \<open>Empty\<close>, \<open>Intersect\<close> and \<open>Point.In\<close>. A rectangle contains the
  points with \<open>Min.X \<le> x < Max.X\<close> and \<open>Min.Y \<le> y < Max.Y\<close>.
\<close>

record Point =
  X :: int
  Y :: int

record Rectangle =
  Min_pt :: Point
  Max_pt :: Point

definition Pt :: "int \<Rightarrow> int \<Rightarrow> Point" where
  "Pt x y = \<lparr>X = x, Y = y\<rparr>"

definition ZR :: Rectangle where
  "ZR = \<lparr>Min_pt = Pt 0 0, Max_pt = Pt 0 0\<rparr>"

definition Dx :: "Rectangle \<Rightarrow> int" where
  "Dx r = wrap64 (X (Max_pt r) - X (Min_pt r))"

definition Dy :: "Rectangle \<Rightarrow> int" where
  "Dy r = wrap64 (Y (Max_pt r) - Y (Min_pt r))"

definition Empty :: "Rectangle \<Rightarrow> bool" where
  "Empty r \<longleftrightarrow> X (Min_pt r) \<ge> X (Max_pt r) \<or> Y (Min_pt r) \<ge> Y (Max_pt r)"

definition Pt_In :: "Point \<Rightarrow> Rectangle \<Rightarrow> bool" where
  "Pt_In p r \<longleftrightarrow>
     X (Min_pt r) \<le> X p \<and> X p < X (Max_pt r) \<and> Y (Min_pt r) \<le> Y p \<and> Y p < Y (Max_pt r)"

definition Intersect :: "Rectangle \<Rightarrow> Rectangle \<Rightarrow> Rectangle" where
  "Intersect r s =
     (let minx = (if X (Min_pt r) < X (Min_pt s) then X (Min_pt s) else X (Min_pt r));
          miny = (if Y (Min_pt r) < Y (Min_pt s) then Y (Min_pt s) else Y (Min_pt r));
          maxx = (if X (Max_pt r) > X (Max_pt s) then X (Max_pt s) else X (Max_pt r));
          maxy = (if Y (Max_pt r) > Y (Max_pt s) then Y (Max_pt s) else Y (Max_pt r));
          r' = \<lparr>Min_pt = Pt minx miny, Max_pt = Pt maxx maxy\<rparr>
      in if Empty r' then ZR else r')"

section \<open>Cells, slices and the store\<close>

definition Color_zero :: Color where
  "Color_zero = \<lparr>Attr = 0, Fore = 0, Back = 0\<rparr>"

record Cell =
  R :: rune
  C :: Color

definition Cell_zero :: Cell where
  "Cell_zero = \<lparr>R = 0, C = Color_zero\<rparr>"

text \<open>
  A \<open>[]Cell\<close> slice is a window into a backing array: the address of its first element
  and its length. The store holds every backing array; \<open>brk\<close> is the first address not
  yet allocated. Frames that share a backing array overlap in the store, so a write
  through one is seen through the other.
\<close>

record slice =
  base :: nat
  slen :: nat

record heap =
  mem :: "nat \<Rightarrow> Cell"
  brk :: nat

definition nil_slice :: slice where
  "nil_slice = \<lparr>base = 0, slen = 0\<rparr>"

text \<open>
  \<open>make([]Cell, n)\<close> panics on a negative length and otherwise allocates \<open>n\<close> zeroed
  cells (the limit of the allocator on the size is not modelled).
\<close>

definition make_cells :: "heap \<Rightarrow> int \<Rightarrow> panic + (slice \<times> heap)" where
  "make_cells h n =
     (if n < 0 then Inl MakeLenOutOfRange
      else Inr (\<lparr>base = brk h, slen = nat n\<rparr>,
                \<lparr>mem = (\<lambda>a. if brk h \<le> a \<and> a < brk h + nat n then Cell_zero else mem h a),
                 brk = brk h + nat n\<rparr>))"

definition index_get :: "heap \<Rightarrow> slice \<Rightarrow> int \<Rightarrow> panic + Cell" where
  "index_get h d i =
     (if 0 \<le> i \<and> i < int (slen d) then Inr (mem h (base d + nat i)) else Inl IndexOutOfRange)"

definition index_set :: "heap \<Rightarrow> slice \<Rightarrow> int \<Rightarrow> Cell \<Rightarrow> panic + heap" where
  "index_set h d i c =
     (if 0 \<le> i \<and> i < int (slen d) then Inr (h\<lparr>mem := (mem h)(base d + nat i := c)\<rparr>)
      else Inl IndexOutOfRange)"

definition slice_from :: "slice \<Rightarrow> int \<Rightarrow> panic + slice" where
  "slice_from d i =
     (if 0 \<le> i \<and> i \<le> int (slen d) then Inr \<lparr>base = base d + nat i, slen = slen d - nat i\<rparr>
      else Inl SliceBoundsOutOfRange)"

section \<open>The frame (package frame)\<close>

record Frame =
  Data :: slice
  Bounds :: Rectangle
  Stride :: int

definition Frame_zero :: Frame where
  "Frame_zero = \<lparr>Data = nil_slice, Bounds = ZR, Stride = 0\<rparr>"

definition New :: "heap \<Rightarrow> Rectangle \<Rightarrow> panic + (Frame \<times> heap)" where
  "New h r =
     (let w = Dx r; ht = Dy r
      in and_then (make_cells h (wrap64 (w * ht)))
           (\<lambda>(d, h'). Inr (\<lparr>Data = d, Bounds = r, Stride = Dx r\<rparr>, h')))"

definition CellOffset :: "Frame \<Rightarrow> int \<Rightarrow> int \<Rightarrow> int" where
  "CellOffset f x y =
     wrap64 (wrap64 (wrap64 (y - Y (Min_pt (Bounds f))) * Stride f)
             + wrap64 (x - X (Min_pt (Bounds f))))"

definition At :: "heap \<Rightarrow> Frame \<Rightarrow> int \<Rightarrow> int \<Rightarrow> panic + Cell" where
  "At h f x y =
     (if \<not> Pt_In (Pt x y) (Bounds f) then Inr Cell_zero
      else index_get h (Data f) (CellOffset f x y))"

definition Set :: "heap \<Rightarrow> Frame \<Rightarrow> int \<Rightarrow> int \<Rightarrow> Cell \<Rightarrow> panic + heap" where
  "Set h f x y c =
     (let pt = Pt x y
      in if \<not> Pt_In pt (Bounds f) then Inr h
         else index_set h (Data f) (CellOffset f x y) c)"

text \<open>
  The loops \<open>for x := r.Min.X; x < r.Max.X; x++\<close> and the one over \<open>y\<close>. The guard
  keeps the counter below a value of type \<open>int\<close>, so the increment cannot wrap around.
\<close>

function FillRect_cols :: "heap \<Rightarrow> Frame \<Rightarrow> Rectangle \<Rightarrow> Cell \<Rightarrow> int \<Rightarrow> int \<Rightarrow> panic + heap" where
  "FillRect_cols h f r c y x =
     (if x < X (Max_pt r)
      then (case Set h f x y c of
              Inl e \<Rightarrow> Inl e
            | Inr h' \<Rightarrow> FillRect_cols h' f r c y (x + 1))
      else Inr h)"
  by pat_completeness auto
termination
  by (relation "measure (\<lambda>(h, f, r, c, y, x). nat (X (Max_pt r) - x))") auto

declare FillRect_cols.simps [simp del]

function FillRect_rows :: "heap \<Rightarrow> Frame \<Rightarrow> Rectangle \<Rightarrow> Cell \<Rightarrow> int \<Rightarrow> panic + heap" where
  "FillRect_rows h f r c y =
     (if y < Y (Max_pt r)
      then (case FillRect_cols h f r c y (X (Min_pt r)) of
              Inl e \<Rightarrow> Inl e
            | Inr h' \<Rightarrow> FillRect_rows h' f r c (y + 1))
      else Inr h)"
  by pat_completeness auto
termination
  by (relation "measure (\<lambda>(h, f, r, c, y). nat (Y (Max_pt r) - y))") auto

declare FillRect_rows.simps [simp del]

definition FillRect :: "heap \<Rightarrow> Frame \<Rightarrow> Rectangle \<Rightarrow> Cell \<Rightarrow> panic + heap" where
  "FillRect h f r c =
     (let r' = Intersect (Bounds f) r
      in if Empty r' then Inr h
         else FillRect_rows h f r' c (Y (Min_pt r')))"

definition Fill :: "heap \<Rightarrow> Frame \<Rightarrow> Cell \<Rightarrow> panic + heap" where
  "Fill h f c = FillRect h f (Bounds f) c"

definition ClearRect :: "heap \<Rightarrow> Frame \<Rightarrow> Rectangle \<Rightarrow> panic + heap" where
  "ClearRect h f r = FillRect h f r \<lparr>R = 32, C = Color_zero\<rparr>"

definition Clear :: "heap \<Rightarrow> Frame \<Rightarrow> panic + heap" where
  "Clear h f = ClearRect h f (Bounds f)"

text \<open>
  The variadic \<open>vals ...interface{}\<close> of \<open>PutText\<close>: a string (given as the runes that
  \<open>range\<close> yields from it), a \<open>console.Color\<close>, or a value of any other type.
\<close>

datatype item = Str "rune list" | Col Color | Other

fun PutText_runes :: "heap \<Rightarrow> Frame \<Rightarrow> int \<Rightarrow> int \<Rightarrow> Color \<Rightarrow> rune list \<Rightarrow> panic + (heap \<times> int)" where
  "PutText_runes h f x y col [] = Inr (h, x)"
| "PutText_runes h f x y col (r # rs) =
     (case Set h f x y \<lparr>R = r, C = col\<rparr> of
        Inl e \<Rightarrow> Inl e
      | Inr h' \<Rightarrow> PutText_runes h' f (wrap64 (x + 1)) y col rs)"

fun PutText_items :: "heap \<Rightarrow> Frame \<Rightarrow> int \<Rightarrow> int \<Rightarrow> Color \<Rightarrow> item list \<Rightarrow> panic + heap" where
  "PutText_items h f x y col [] = Inr h"
| "PutText_items h f x y col (v # vs) =
     (if x \<ge> X (Max_pt (Bounds f)) then Inr h
      else (case v of
              Str s \<Rightarrow>
                (case PutText_runes h f x y col s of
                   Inl e \<Rightarrow> Inl e
                 | Inr (h', x') \<Rightarrow> PutText_items h' f x' y col vs)
            | Col c \<Rightarrow> PutText_items h f x y c vs
            | Other \<Rightarrow>
                Inl (PanicMsg ''Frame.PutText accepts data of only type string and console.Color.'')))"

definition PutText :: "heap \<Rightarrow> Frame \<Rightarrow> int \<Rightarrow> int \<Rightarrow> item list \<Rightarrow> panic + heap" where
  "PutText h f x y vals =
     (if y < Y (Min_pt (Bounds f)) \<or> y \<ge> Y (Max_pt (Bounds f)) then Inr h
      else PutText_items h f x y Color_zero vals)"

definition PutTextRel :: "heap \<Rightarrow> Frame \<Rightarrow> int \<Rightarrow> int \<Rightarrow> item list \<Rightarrow> panic + heap" where
  "PutTextRel h f x y vals =
     PutText h f (wrap64 (X (Min_pt (Bounds f)) + x)) (wrap64 (Y (Min_pt (Bounds f)) + y)) vals"

text \<open>
  \<open>utf8.EncodeRune\<close> of the Go library: one to four bytes; a rune that is negative,
  above U+10FFFF or a surrogate is encoded as U+FFFD.
\<close>

definition to_byte :: "32 word \<Rightarrow> uint8" where
  "to_byte w = ucast w"

definition byte_char :: "uint8 \<Rightarrow> byte" where
  "byte_char b = char_of (unat b)"

definition encode3 :: "rune \<Rightarrow> byte list" where
  "encode3 r =
     [byte_char (0xE0 OR to_byte (signed_drop_bit 12 r)),
      byte_char (0x80 OR (to_byte (signed_drop_bit 6 r) AND 0x3F)),
      byte_char (0x80 OR (to_byte r AND 0x3F))]"

definition EncodeRune :: "rune \<Rightarrow> byte list" where
  "EncodeRune r =
     (if r \<le> 0x7F then [byte_char (to_byte r)]
      else if r \<le> 0x7FF then
        [byte_char (0xC0 OR to_byte (signed_drop_bit 6 r)),
         byte_char (0x80 OR (to_byte r AND 0x3F))]
      else if r > 0x10FFFF \<or> (0xD800 \<le> r \<and> r \<le> 0xDFFF) then encode3 0xFFFD
      else if r \<le> 0xFFFF then encode3 r
      else
        [byte_char (0xF0 OR to_byte (signed_drop_bit 18 r)),
         byte_char (0x80 OR (to_byte (signed_drop_bit 12 r) AND 0x3F)),
         byte_char (0x80 OR (to_byte (signed_drop_bit 6 r) AND 0x3F)),
         byte_char (0x80 OR (to_byte r AND 0x3F))])"

text \<open>
  \<open>PrintRect\<close>. The state of the two loops is the running colour \<open>col\<close> and the
  package-level buffer \<open>printBuf\<close>. The body of the inner loop is \<open>PrintRect_cell\<close>.
  The result is the content of \<open>printBuf\<close> at the end, which is the string written to
  the console.
\<close>

definition PrintRect_cell :: "heap \<Rightarrow> Frame \<Rightarrow> int \<Rightarrow> int \<Rightarrow> Color \<times> string \<Rightarrow> panic + (Color \<times> string)" where
  "PrintRect_cell h f x y st =
     (case At h f x y of
        Inl e \<Rightarrow> Inl e
      | Inr cell0 \<Rightarrow>
          (let cell = (if R cell0 = 0 then cell0\<lparr>R := 32\<rparr> else cell0)
           in if fst st \<noteq> C cell
              then (case Color_String (C cell) of
                      Inl e \<Rightarrow> Inl e
                    | Inr s \<Rightarrow> Inr (C cell, snd st @ s @ EncodeRune (R cell)))
              else Inr (fst st, snd st @ EncodeRune (R cell))))"

function PrintRect_cols :: "heap \<Rightarrow> Frame \<Rightarrow> Rectangle \<Rightarrow> int \<Rightarrow> int \<Rightarrow> Color \<times> string \<Rightarrow> panic + (Color \<times> string)" where
  "PrintRect_cols h f r y x st =
     (if x < X (Max_pt r)
      then (case PrintRect_cell h f x y st of
              Inl e \<Rightarrow> Inl e
            | Inr st' \<Rightarrow> PrintRect_cols h f r y (x + 1) st')
      else Inr st)"
  by pat_completeness auto
termination
  by (relation "measure (\<lambda>(h, f, r, y, x, st). nat (X (Max_pt r) - x))") auto

declare PrintRect_cols.simps [simp del]

function PrintRect_rows :: "heap \<Rightarrow> Frame \<Rightarrow> Rectangle \<Rightarrow> int \<Rightarrow> Color \<times> string \<Rightarrow> panic + (Color \<times> string)" where
  "PrintRect_rows h f r y st =
     (if y < Y (Max_pt r)
      then (case PrintRect_cols h f r y (X (Min_pt r))
                   (fst st, snd st @ FormatMoveTo (y + 1) (X (Min_pt r))) of
              Inl e \<Rightarrow> Inl e
            | Inr st' \<Rightarrow> PrintRect_rows h f r (y + 1) st')
      else Inr st)"
  by pat_completeness auto
termination
  by (relation "measure (\<lambda>(h, f, r, y, st). nat (Y (Max_pt r) - y))") auto

declare PrintRect_rows.simps [simp del]

definition PrintRect :: "string \<Rightarrow> heap \<Rightarrow> Frame \<Rightarrow> Rectangle \<Rightarrow> panic + string" where
  "PrintRect printBuf h f r =
     (case PrintRect_rows h f r (Y (Min_pt r)) (Color_zero, take 0 printBuf) of
        Inl e \<Rightarrow> Inl e
      | Inr st \<Rightarrow> Inr (snd st))"

definition Print :: "string \<Rightarrow> heap \<Rightarrow> Frame \<Rightarrow> panic + string" where
  "Print printBuf h f = PrintRect printBuf h f (Bounds f)"

definition SubFrame :: "Frame \<Rightarrow> Rectangle \<Rightarrow> panic + Frame" where
  "SubFrame f r =
     (let r' = Intersect r (Bounds f)
      in if Empty r' then Inr Frame_zero
         else and_then (slice_from (Data f) (CellOffset f (X (Min_pt r')) (Y (Min_pt r'))))
                (\<lambda>d. Inr \<lparr>Data = d, Bounds = r', Stride = Stride f\<rparr>))"

section \<open>The invariant of frames\<close>

text \<open>
  \<open>frame_ok\<close> is the invariant of the data model, on the header of a frame alone: the
  length of the slice fits an \<open>int\<close> and, when the bounds are not empty, a row of the
  bounds is no wider than the stride and the last cell of the last row lies inside the
  slice. \<open>no_overflow\<close> says that the width, the height and the area of a rectangle are
  computed by \<open>New\<close> without wrap-around. \<open>reachable\<close> are the frames built by \<open>New\<close>
  from such a rectangle and by any chain of \<open>SubFrame\<close>. \<open>addr\<close> is the address in the
  store of the cell of a point, \<open>cell_at\<close> the cell read there (the zero cell outside the
  bounds). \<open>heap0\<close> is the store before any allocation and \<open>Rect\<close> is \<open>image.Rect\<close>.
\<close>

definition frame_ok :: "Frame \<Rightarrow> bool" where
  "frame_ok f \<longleftrightarrow>
     int (slen (Data f)) < 2 ^ 63 \<and>
     (\<not> Empty (Bounds f) \<longrightarrow>
        X (Max_pt (Bounds f)) - X (Min_pt (Bounds f)) \<le> Stride f \<and>
        (Y (Max_pt (Bounds f)) - Y (Min_pt (Bounds f)) - 1) * Stride f
          + (X (Max_pt (Bounds f)) - X (Min_pt (Bounds f))) \<le> int (slen (Data f)))"

definition no_overflow :: "Rectangle \<Rightarrow> bool" where
  "no_overflow r \<longleftrightarrow>
     in_int64 (X (Max_pt r) - X (Min_pt r)) \<and> in_int64 (Y (Max_pt r) - Y (Min_pt r)) \<and>
     in_int64 ((X (Max_pt r) - X (Min_pt r)) * (Y (Max_pt r) - Y (Min_pt r)))"

definition cell_at :: "heap \<Rightarrow> Frame \<Rightarrow> int \<Rightarrow> int \<Rightarrow> Cell" where
  "cell_at h f x y =
     (if Pt_In (Pt x y) (Bounds f) then mem h (base (Data f) + nat (CellOffset f x y))
      else Cell_zero)"

inductive reachable :: "Frame \<Rightarrow> bool" where
  root: "New h r = Inr (f, h') \<Longrightarrow> no_overflow r \<Longrightarrow> reachable f"
| sub: "reachable f \<Longrightarrow> SubFrame f r = Inr g \<Longrightarrow> reachable g"

definition heap0 :: heap where
  "heap0 = \<lparr>mem = (\<lambda>a. Cell_zero), brk = 0\<rparr>"

definition Rect :: "int \<Rightarrow> int \<Rightarrow> int \<Rightarrow> int \<Rightarrow> Rectangle" where
  "Rect x0 y0 x1 y1 =
     \<lparr>Min_pt = Pt (if x0 > x1 then x1 else x0) (if y0 > y1 then y1 else y0),
      Max_pt = Pt (if x0 > x1 then x0 else x1) (if y0 > y1 then y0 else y1)\<rparr>"

definition addr :: "Frame \<Rightarrow> int \<Rightarrow> int \<Rightarrow> nat" where
  "addr f x y = base (Data f) + nat (CellOffset f x y)"

section \<open>Concrete frames\<close>

text \<open>
  The frame \<open>New\<close> builds from the rectangle \<open>(0,0)-(3,2)\<close> on the empty store, its
  sub-frame for the rectangle \<open>(1,1)-(5,5)\<close>, a rectangle on which the arithmetic of
  \<open>New\<close> wraps around with the frame \<open>New\<close> builds from it, and the cell
  \<open>{'X', Color{RESET, RED, BLACK}}\<close>.
\<close>

definition frame32 :: Frame where
  "frame32 = \<lparr>Data = \<lparr>base = 0, slen = 6\<rparr>, Bounds = Rect 0 0 3 2, Stride = 3\<rparr>"

definition heap32 :: heap where
  "heap32 = \<lparr>mem = (\<lambda>a. Cell_zero), brk = 6\<rparr>"

definition sub32 :: Frame where
  "sub32 = \<lparr>Data = \<lparr>base = 4, slen = 2\<rparr>, Bounds = Rect 1 1 3 2, Stride = 3\<rparr>"

definition big_rect :: Rectangle where
  "big_rect = \<lparr>Min_pt = Pt (- (2 ^ 62) - 1) (- (2 ^ 62) - 1), Max_pt = Pt (2 ^ 62) (2 ^ 62)\<rparr>"

definition big_frame :: Frame where
  "big_frame = \<lparr>Data = \<lparr>base = 0, slen = 1\<rparr>, Bounds = big_rect, Stride = - (2 ^ 63) + 1\<rparr>"

definition cell_X :: Cell where
  "cell_X = \<lparr>R = 88, C = \<lparr>Attr = RESET, Fore = RED, Back = BLACK\<rparr>\<rparr>"

text \<open>
  The store after \<open>New\<close> on \<open>big_rect\<close>, the rectangle of the two cells at the top-left
  corner of \<open>big_rect\<close>, and the sub-frame of \<open>big_frame\<close> for it.
\<close>

definition big_heap :: heap where
  "big_heap = heap0\<lparr>brk := 1\<rparr>"

definition big_corner :: Rectangle where
  "big_corner = \<lparr>Min_pt = Pt (- (2 ^ 62) - 1) (- (2 ^ 62) - 1), Max_pt = Pt (- (2 ^ 62) + 1) (- (2 ^ 62))\<rparr>"

definition big_sub :: Frame where
  "big_sub = \<lparr>Data = \<lparr>base = 0, slen = 1\<rparr>, Bounds = big_corner, Stride = - (2 ^ 63) + 1\<rparr>"

section \<open>The output of PrintRect, cell by cell\<close>

text \<open>
  \<open>colour_ok\<close> are the colours \<open>FormatColor\<close> accepts and \<open>colour_esc\<close> is the escape
  string of a colour. \<open>shown\<close> is the cell \<open>PrintRect\<close> renders at a point: the cell read
  there, with a space for the rune 0. \<open>prev_colour\<close> is the colour of the cell scanned just
  before a point of the rectangle: the cell to its left, or the last cell of the row
  above, or the zero colour at the first point. \<open>cell_out\<close> and \<open>row_out\<close> are the bytes
  of one cell and of one row. \<open>heapX\<close> is the store of \<open>frame32\<close> with the cell \<open>X\<close> at
  \<open>(1,1)\<close>, and \<open>scenario\<close> runs \<open>New\<close>, \<open>Clear\<close>, \<open>Set\<close> and \<open>PrintRect\<close> in a row.
\<close>

definition colour_ok :: "Color \<Rightarrow> bool" where
  "colour_ok c \<longleftrightarrow> Attr c \<le> 8 \<and> Fore c \<le> 7 \<and> Back c \<le> 7"

definition colour_esc :: "Color \<Rightarrow> string" where
  "colour_esc c =
     CSI @ FormatInt (uint (Attr c)) @ '';'' @ FormatInt (uint (Fore c + 30)) @ '';''
       @ FormatInt (uint (Back c + 40)) @ ''m''"

definition shown :: "heap \<Rightarrow> Frame \<Rightarrow> int \<Rightarrow> int \<Rightarrow> Cell" where
  "shown h f x y =
     (if R (cell_at h f x y) = 0 then (cell_at h f x y)\<lparr>R := 32\<rparr> else cell_at h f x y)"

definition prev_colour :: "heap \<Rightarrow> Frame \<Rightarrow> Rectangle \<Rightarrow> int \<Rightarrow> int \<Rightarrow> Color" where
  "prev_colour h f r x y =
     (if X (Min_pt r) < x then C (shown h f (x - 1) y)
      else if Y (Min_pt r) < y then C (shown h f (X (Max_pt r) - 1) (y - 1))
      else Color_zero)"

definition cell_out :: "heap \<Rightarrow> Frame \<Rightarrow> Rectangle \<Rightarrow> int \<Rightarrow> int \<Rightarrow> string" where
  "cell_out h f r x y =
     (if prev_colour h f r x y \<noteq> C (shown h f x y) then colour_esc (C (shown h f x y)) else [])
     @ EncodeRune (R (shown h f x y))"

definition row_out :: "heap \<Rightarrow> Frame \<Rightarrow> Rectangle \<Rightarrow> int \<Rightarrow> string" where
  "row_out h f r y =
     FormatMoveTo (y + 1) (X (Min_pt r))
     @ concat (map (\<lambda>x. cell_out h f r x y) [X (Min_pt r)..X (Max_pt r) - 1])"

definition heapX :: heap where
  "heapX = heap32\<lparr>mem := (mem heap32)(4 := cell_X)\<rparr>"

definition scenario :: "panic + string" where
  "scenario =
     and_then (New heap0 (Rect 0 0 3 2)) (\<lambda>(f, h).
     and_then (Clear h f) (\<lambda>h1.
     and_then (Set h1 f 1 1 cell_X) (\<lambda>h2.
     PrintRect [] h2 f (Bounds f))))"

section \<open>The running column of PutText\<close>

text \<open>
  \<open>PutText_panic\<close> is the panic of \<open>PutText\<close>. \<open>advance\<close> is the column after one
  item (a string moves it by one per rune, with the wrap-around of \<open>x++\<close>) and
  \<open>cursor\<close> the column after a list of items. \<open>stops_at_other\<close> says that the items
  are strings and colours up to a first value of another type, and that the column is
  below the bound \<open>m\<close> before each of them and before that value.
\<close>

definition PutText_panic :: panic where
  "PutText_panic = PanicMsg ''Frame.PutText accepts data of only type string and console.Color.''"

fun advance :: "int \<Rightarrow> item \<Rightarrow> int" where
  "advance x (Str s) = fold (\<lambda>r x'. wrap64 (x' + 1)) s x"
| "advance x (Col c) = x"
| "advance x Other = x"

definition cursor :: "int \<Rightarrow> item list \<Rightarrow> int" where
  "cursor x vs = foldl advance x vs"

definition stops_at_other :: "int \<Rightarrow> int \<Rightarrow> item list \<Rightarrow> bool" where
  "stops_at_other m x vals \<longleftrightarrow>
     (\<exists>pre post. vals = pre @ Other # post \<and> Other \<notin> set pre
        \<and> (\<forall>k \<le> length pre. cursor x (take k pre) < m))"

section \<open>Properties of the key decoder\<close>

lemma parseKey_Nil: "parseKey [] = Inr 0"
  by (simp add: parseKey_def)

lemma parseKey_Cons:
  "parseKey (b # rest) = (if b = CHR 0x1B then parseESC rest else Inr (of_char b))"
  by (simp add: parseKey_def and_then_def byte_at_def bytes_from_def)

lemma parseESC_Nil: "parseESC [] = Inr K_ESCAPE"
  by (simp add: parseESC_def)

lemma parseESC_Cons:
  "parseESC (c # rest) =
     (if c = CHR ''['' then parseCSI rest else if c = CHR ''O'' then parseSS3 rest else Inr 0)"
  by (simp add: parseESC_def and_then_def byte_at_def bytes_from_def)

lemma parseSS3_eq:
  "parseSS3 rest =
     Inr (case rest of [] \<Rightarrow> 0
          | c # cs \<Rightarrow> if c = CHR ''H'' then K_HOME else if c = CHR ''F'' then K_END else 0)"
  by (simp add: parseSS3_def and_then_def byte_at_def split: list.splits)

lemma parseCSI_eq:
  "parseCSI rest =
     Inr (if rest = ''A'' then K_UP else if rest = ''B'' then K_DOWN
          else if rest = ''C'' then K_RIGHT else if rest = ''D'' then K_LEFT
          else if rest = ''2~'' then K_INSERT else if rest = ''3~'' then K_DELETE
          else if rest = ''5~'' then K_PAGEUP else if rest = ''6~'' then K_PAGEDOWN
          else 0)"
  unfolding parseCSI_def by (cases rest) simp_all

lemma parseESC_total: "\<exists>k. parseESC buf = Inr k"
  by (cases buf) (simp_all add: parseESC_Nil parseESC_Cons parseCSI_eq parseSS3_eq)

lemma parseKey_total: "\<exists>k. parseKey buf = Inr k"
  using parseESC_total by (cases buf) (simp_all add: parseKey_Nil parseKey_Cons)

text \<open>
  Claim C3. \<open>parseKey\<close> is the three-level dispatch: the empty input gives the unknown
  code 0; a first byte other than ESC gives that byte's ordinal value; a lone ESC gives
  \<open>K_ESCAPE\<close>; after ESC and \<open>[\<close> the whole remainder is compared with the table
  \<open>A\<close>, \<open>B\<close>, \<open>C\<close>, \<open>D\<close>, \<open>2~\<close>, \<open>3~\<close>, \<open>5~\<close>, \<open>6~\<close>; after ESC
  and \<open>O\<close> the first remaining byte selects Home or End; every other input gives 0; and
  on every byte sequence the decoder returns a code and does not panic.
\<close>

theorem parseKey_dispatch:
  "parseKey [] = Inr 0
   \<and> (b \<noteq> CHR 0x1B \<longrightarrow> parseKey (b # rest) = Inr (of_char b))
   \<and> parseKey [CHR 0x1B] = Inr K_ESCAPE
   \<and> parseKey (CHR 0x1B # CHR ''['' # rest) =
       Inr (if rest = ''A'' then K_UP else if rest = ''B'' then K_DOWN
            else if rest = ''C'' then K_RIGHT else if rest = ''D'' then K_LEFT
            else if rest = ''2~'' then K_INSERT else if rest = ''3~'' then K_DELETE
            else if rest = ''5~'' then K_PAGEUP else if rest = ''6~'' then K_PAGEDOWN
            else 0)
   \<and> parseKey (CHR 0x1B # CHR ''O'' # rest) =
       Inr (case rest of [] \<Rightarrow> 0
            | c # cs \<Rightarrow> if c = CHR ''H'' then K_HOME else if c = CHR ''F'' then K_END else 0)
   \<and> (c \<noteq> CHR ''['' \<and> c \<noteq> CHR ''O'' \<longrightarrow> parseKey (CHR 0x1B # c # rest) = Inr 0)
   \<and> (\<exists>k. parseKey buf = Inr k)"
proof -
  have esc: "parseKey (CHR 0x1B # bs) = parseESC bs" for bs
    by (simp add: parseKey_Cons)
  have csi: "parseKey (CHR 0x1B # CHR ''['' # rest) = parseCSI rest"
    by (simp add: esc parseESC_Cons)
  have ss3: "parseKey (CHR 0x1B # CHR ''O'' # rest) = parseSS3 rest"
    by (simp add: esc parseESC_Cons)
  show ?thesis
    unfolding csi ss3 esc
    using parseKey_total [of buf]
    by (simp add: parseKey_Nil parseKey_Cons parseESC_Nil parseESC_Cons
        parseSS3_eq [symmetric] parseCSI_eq [symmetric])
qed

theorem parseKey_dispatch_witness:
  "CHR ''a'' \<noteq> CHR 0x1B \<and> parseKey ''a'' = Inr 97
   \<and> parseKey [CHR 0x1B, CHR ''['', CHR ''5'', CHR ''~''] = Inr K_PAGEUP
   \<and> parseKey [CHR 0x1B, CHR ''O'', CHR ''H''] = Inr K_HOME
   \<and> parseKey [CHR 0x1B, CHR ''O'', CHR ''Z''] = Inr 0
   \<and> CHR ''x'' \<noteq> CHR ''['' \<and> CHR ''x'' \<noteq> CHR ''O''
   \<and> parseKey [CHR 0x1B, CHR ''x'', CHR ''A''] = Inr 0"
  using parseKey_dispatch [of "CHR ''a''" "[]" "CHR ''x''" "[]"]
    parseKey_dispatch [of "CHR ''a''" "''5~''" "CHR ''x''" "[]"]
    parseKey_dispatch [of "CHR ''a''" "''H''" "CHR ''x''" "[]"]
    parseKey_dispatch [of "CHR ''a''" "''Z''" "CHR ''x''" "[]"]
    parseKey_dispatch [of "CHR ''a''" "''A''" "CHR ''x''" "[]"]
  by simp

section \<open>Properties of the escape strings\<close>

lemma FormatUint_digit: "n < 10 \<Longrightarrow> FormatUint n = [digit_char n]"
  by (simp add: FormatUint.simps)

lemma FormatUint_two:
  "10 \<le> n \<Longrightarrow> n < 100 \<Longrightarrow> FormatUint n = [digit_char (n div 10), digit_char (n mod 10)]"
  by (subst FormatUint.simps) (simp add: FormatUint_digit)

lemma uint8_add_small:
  fixes f :: uint8
  assumes "f \<le> 7" and "k \<le> 100"
  shows "unat (f + of_nat k) = unat f + k"
proof -
  have "unat f \<le> 7"
    using assms(1) by (simp add: word_le_nat_alt)
  then show ?thesis
    using assms(2) by (simp add: unat_word_ariths take_bit_nat_eq_self unsigned_of_nat)
qed

lemma FormatInt_uint: "FormatInt (uint w) = FormatUint (unat w)"
  by (simp add: FormatInt_def)

lemma digit_char_simps:
  "digit_char 0 = CHR ''0''" "digit_char 1 = CHR ''1''" "digit_char 2 = CHR ''2''"
  "digit_char 3 = CHR ''3''" "digit_char 4 = CHR ''4''" "digit_char 5 = CHR ''5''"
  "digit_char 6 = CHR ''6''" "digit_char 7 = CHR ''7''" "digit_char 8 = CHR ''8''"
  "digit_char 9 = CHR ''9''" "digit_char (Suc 0) = CHR ''1''"
  by code_simp+

lemma div_mod_30: "n \<le> 7 \<Longrightarrow> (n + 30) div 10 = 3 \<and> (n + 30) mod 10 = (n::nat)"
  by presburger

lemma div_mod_40: "n \<le> 7 \<Longrightarrow> (n + 40) div 10 = 4 \<and> (n + 40) mod 10 = (n::nat)"
  by presburger

text \<open>
  Claim C9. \<open>FormatColor\<close> panics whenever a component is out of range (attribute above
  8, foreground above 7 or background above 7; the components are unsigned) and clamps
  nothing; for an in-range triple it returns exactly ESC \<open>[\<close> a \<open>;\<close> 30+f \<open>;\<close> 40+b
  \<open>m\<close>, that is the digit of a, the digits 3 and f, and the digits 4 and b.
\<close>

theorem FormatColor_spec:
  "(8 < a \<or> 7 < f \<or> 7 < b \<longrightarrow> (\<exists>msg. FormatColor a f b = Inl (PanicMsg msg)))
   \<and> (a \<le> 8 \<and> f \<le> 7 \<and> b \<le> 7 \<longrightarrow>
        FormatColor a f b =
          Inr ([CHR 0x1B, CHR ''['', digit_char (unat a), CHR '';'',
                CHR ''3'', digit_char (unat f), CHR '';'',
                CHR ''4'', digit_char (unat b), CHR ''m'']))"
proof (intro conjI impI)
  assume "8 < a \<or> 7 < f \<or> 7 < b"
  then show "\<exists>msg. FormatColor a f b = Inl (PanicMsg msg)"
    by (auto simp: FormatColor_def)
next
  assume ok: "a \<le> 8 \<and> f \<le> 7 \<and> b \<le> 7"
  then have ua: "unat a \<le> 8" and uf: "unat f \<le> 7" and ub: "unat b \<le> 7"
    by (simp_all add: word_le_nat_alt)
  have f30: "unat (f + 30) = unat f + 30"
    using uint8_add_small [of f 30] ok by simp
  have b40: "unat (b + 40) = unat b + 40"
    using uint8_add_small [of b 40] ok by simp
  have sa: "FormatUint (unat a) = [digit_char (unat a)]"
    using ua by (simp add: FormatUint_digit)
  have sf: "FormatUint (unat f + 30) = [CHR ''3'', digit_char (unat f)]"
    using uf by (simp add: FormatUint_two digit_char_simps div_mod_30)
  have sb: "FormatUint (unat b + 40) = [CHR ''4'', digit_char (unat b)]"
    using ub by (simp add: FormatUint_two digit_char_simps div_mod_40)
  have guard: "\<not> (a < 0 \<or> 8 < a)" "\<not> (f < 0 \<or> 7 < f)" "\<not> (b < 0 \<or> 7 < b)"
    using ok by (simp_all add: not_less)
  show "FormatColor a f b =
          Inr ([CHR 0x1B, CHR ''['', digit_char (unat a), CHR '';'',
                CHR ''3'', digit_char (unat f), CHR '';'',
                CHR ''4'', digit_char (unat b), CHR ''m''])"
    unfolding FormatColor_def Let_def FormatInt_uint f30 b40 sa sf sb
    using guard by (simp add: CSI_def ESC_def)
qed

theorem FormatColor_spec_witness:
  "(8::uint8) < 9 \<and> (\<exists>msg. FormatColor 9 0 0 = Inl (PanicMsg msg))
   \<and> (2::uint8) \<le> 8 \<and> (1::uint8) \<le> 7 \<and> (4::uint8) \<le> 7
   \<and> FormatColor 2 1 4 = Inr (CHR 0x1B # ''[2;31;44m'')"
  using FormatColor_spec [of 9 0 0] FormatColor_spec [of 2 1 4]
  by (simp add: digit_char_simps)

section \<open>Arithmetic of offsets and the invariant\<close>

lemma wrap64_id: "in_int64 i \<Longrightarrow> wrap64 i = i"
  by (simp add: wrap64_def in_int64_def)

lemma wrap64_range: "in_int64 (wrap64 i)"
  by (simp add: wrap64_def in_int64_def)

lemma wrap64_mod: "wrap64 a mod 2 ^ 64 = a mod 2 ^ 64"
proof -
  have "wrap64 a mod 2 ^ 64 = ((a + 2 ^ 63) mod 2 ^ 64 - 2 ^ 63) mod 2 ^ 64"
    by (simp add: wrap64_def)
  also have "\<dots> = (a + 2 ^ 63 - 2 ^ 63) mod 2 ^ 64"
    by (rule mod_diff_left_eq)
  finally show ?thesis by simp
qed

lemma wrap64_cong: "a mod 2 ^ 64 = b mod 2 ^ 64 \<Longrightarrow> wrap64 a = wrap64 b"
  unfolding wrap64_def using mod_add_cong [of a "2 ^ 64" b "2 ^ 63" "2 ^ 63"] by presburger

lemma CellOffset_wrap:
  "CellOffset f x y =
     wrap64 ((y - Y (Min_pt (Bounds f))) * Stride f + (x - X (Min_pt (Bounds f))))"
proof -
  let ?u = "y - Y (Min_pt (Bounds f))" and ?v = "x - X (Min_pt (Bounds f))"
  have m: "(wrap64 (wrap64 ?u * Stride f)) mod 2 ^ 64 = (?u * Stride f) mod 2 ^ 64"
    by (metis wrap64_mod mod_mult_left_eq)
  have "(wrap64 (wrap64 ?u * Stride f) + wrap64 ?v) mod 2 ^ 64 = (?u * Stride f + ?v) mod 2 ^ 64"
    by (metis m wrap64_mod mod_add_eq)
  then show ?thesis
    unfolding CellOffset_def by (rule wrap64_cong)
qed

lemma frame_ok_offset:
  assumes ok: "frame_ok f" and inb: "Pt_In (Pt x y) (Bounds f)"
  shows "CellOffset f x y = (y - Y (Min_pt (Bounds f))) * Stride f + (x - X (Min_pt (Bounds f)))"
    and "0 \<le> CellOffset f x y" and "CellOffset f x y < int (slen (Data f))"
proof -
  let ?u = "y - Y (Min_pt (Bounds f))" and ?v = "x - X (Min_pt (Bounds f))"
  let ?S = "Stride f"
  let ?W = "X (Max_pt (Bounds f)) - X (Min_pt (Bounds f))"
  let ?H = "Y (Max_pt (Bounds f)) - Y (Min_pt (Bounds f))"
  from inb have u: "0 \<le> ?u" "?u \<le> ?H - 1" and v: "0 \<le> ?v" "?v < ?W"
    by (simp_all add: Pt_In_def Pt_def)
  from inb have ne: "\<not> Empty (Bounds f)"
    by (auto simp: Pt_In_def Pt_def Empty_def)
  with ok have S: "?W \<le> ?S" and L: "(?H - 1) * ?S + ?W \<le> int (slen (Data f))"
    and B: "int (slen (Data f)) < 2 ^ 63"
    by (simp_all add: frame_ok_def)
  from v S have Spos: "0 < ?S" by linarith
  have "?u * ?S \<le> (?H - 1) * ?S"
    using u(2) Spos by (simp add: mult_right_mono)
  moreover have "0 \<le> ?u * ?S"
    using u(1) Spos by simp
  ultimately have rng: "0 \<le> ?u * ?S + ?v" "?u * ?S + ?v < int (slen (Data f))"
    using v L by linarith+
  then have "in_int64 (?u * ?S + ?v)"
    using B by (simp add: in_int64_def)
  then show eq: "CellOffset f x y = ?u * ?S + ?v"
    by (simp add: CellOffset_wrap wrap64_id)
  show "0 \<le> CellOffset f x y" "CellOffset f x y < int (slen (Data f))"
    using rng by (simp_all add: eq)
qed

lemma frame_ok_inj:
  assumes ok: "frame_ok f" and p: "Pt_In (Pt x y) (Bounds f)" and q: "Pt_In (Pt x' y') (Bounds f)"
    and eq: "CellOffset f x y = CellOffset f x' y'"
  shows "x = x' \<and> y = y'"
proof -
  let ?u = "y - Y (Min_pt (Bounds f))" and ?v = "x - X (Min_pt (Bounds f))"
  let ?u' = "y' - Y (Min_pt (Bounds f))" and ?v' = "x' - X (Min_pt (Bounds f))"
  let ?S = "Stride f"
  let ?W = "X (Max_pt (Bounds f)) - X (Min_pt (Bounds f))"
  from p have ne: "\<not> Empty (Bounds f)"
    by (auto simp: Pt_In_def Pt_def Empty_def)
  with ok have S: "?W \<le> ?S" by (simp add: frame_ok_def)
  from p q S have v: "0 \<le> ?v" "?v < ?S" "0 \<le> ?v'" "?v' < ?S"
    by (simp_all add: Pt_In_def Pt_def)
  have e: "?u * ?S + ?v = ?u' * ?S + ?v'"
    using eq frame_ok_offset(1) [OF ok p] frame_ok_offset(1) [OF ok q] by simp
  have "(?u * ?S + ?v) div ?S = ?u" "(?u * ?S + ?v) mod ?S = ?v"
    using v by simp_all
  moreover have "(?u' * ?S + ?v') div ?S = ?u'" "(?u' * ?S + ?v') mod ?S = ?v'"
    using v by simp_all
  ultimately have "?u = ?u'" "?v = ?v'"
    using e by simp_all
  then show ?thesis by simp
qed


lemma At_ok: "frame_ok f \<Longrightarrow> At h f x y = Inr (cell_at h f x y)"
  using frame_ok_offset(2,3) [of f x y]
  by (simp add: At_def cell_at_def index_get_def)

lemma Set_ok:
  "frame_ok f \<Longrightarrow>
   Set h f x y c =
     Inr (if Pt_In (Pt x y) (Bounds f) then h\<lparr>mem := (mem h)(addr f x y := c)\<rparr> else h)"
  using frame_ok_offset(2,3) [of f x y]
  by (simp add: Set_def index_set_def addr_def)

lemma Pt_In_Intersect: "Pt_In p (Intersect r s) \<longleftrightarrow> Pt_In p r \<and> Pt_In p s"
  by (auto simp: Intersect_def Let_def Pt_In_def Pt_def ZR_def Empty_def)

lemma Empty_Intersect: "Empty (Intersect r s) \<longleftrightarrow> (\<forall>x y. \<not> Pt_In (Pt x y) (Intersect r s))"
proof
  assume "Empty (Intersect r s)"
  then show "\<forall>x y. \<not> Pt_In (Pt x y) (Intersect r s)"
    by (auto simp: Pt_In_def Pt_def Empty_def)
next
  assume a: "\<forall>x y. \<not> Pt_In (Pt x y) (Intersect r s)"
  show "Empty (Intersect r s)"
  proof (rule ccontr)
    assume "\<not> Empty (Intersect r s)"
    then have "Pt_In (Pt (X (Min_pt (Intersect r s))) (Y (Min_pt (Intersect r s)))) (Intersect r s)"
      by (simp add: Pt_In_def Pt_def Empty_def)
    with a show False by blast
  qed
qed

lemma New_frame_ok:
  assumes "New h r = Inr (f, h')" and "no_overflow r"
  shows "frame_ok f"
proof -
  let ?W = "X (Max_pt r) - X (Min_pt r)" and ?H = "Y (Max_pt r) - Y (Min_pt r)"
  from assms(2) have w: "Dx r = ?W" and ht: "Dy r = ?H" and n: "wrap64 (?W * ?H) = ?W * ?H"
    by (simp_all add: no_overflow_def Dx_def Dy_def wrap64_id)
  from assms(1) have nn: "0 \<le> ?W * ?H"
    and f: "f = \<lparr>Data = \<lparr>base = brk h, slen = nat (?W * ?H)\<rparr>, Bounds = r, Stride = ?W\<rparr>"
    by (auto simp: New_def Let_def and_then_def make_cells_def w ht n split: if_splits)
  from assms(2) have "?W * ?H < 2 ^ 63"
    by (simp add: no_overflow_def in_int64_def)
  moreover have "(?H - 1) * ?W + ?W = ?W * ?H"
    by (simp add: algebra_simps)
  ultimately show ?thesis
    using nn by (simp add: frame_ok_def f)
qed

lemma New_succeeds:
  assumes "no_overflow r" and "0 \<le> (X (Max_pt r) - X (Min_pt r)) * (Y (Max_pt r) - Y (Min_pt r))"
  shows "\<exists>f h'. New h r = Inr (f, h')"
  using assms
  by (simp add: New_def Let_def and_then_def make_cells_def no_overflow_def Dx_def Dy_def wrap64_id)

lemma Frame_zero_ok: "frame_ok Frame_zero"
  by (simp add: frame_ok_def Frame_zero_def nil_slice_def ZR_def Empty_def Pt_def)

lemma Bounds_Frame_zero: "\<not> Pt_In p (Bounds Frame_zero)"
  by (simp add: Frame_zero_def ZR_def Pt_In_def Pt_def)

lemma Intersect_sub:
  assumes "\<not> Empty (Intersect r s)"
  shows "X (Min_pt s) \<le> X (Min_pt (Intersect r s))" "Y (Min_pt s) \<le> Y (Min_pt (Intersect r s))"
    "X (Max_pt (Intersect r s)) \<le> X (Max_pt s)" "Y (Max_pt (Intersect r s)) \<le> Y (Max_pt s)"
    "X (Min_pt (Intersect r s)) < X (Max_pt (Intersect r s))"
    "Y (Min_pt (Intersect r s)) < Y (Max_pt (Intersect r s))"
  using assms
  by (auto simp: Intersect_def Let_def Pt_def ZR_def Empty_def split: if_splits)

lemma SubFrame_ok:
  assumes ok: "frame_ok f"
  shows "\<exists>g. SubFrame f r = Inr g \<and> frame_ok g
           \<and> (\<forall>x y. Pt_In (Pt x y) (Bounds g) \<longleftrightarrow> Pt_In (Pt x y) r \<and> Pt_In (Pt x y) (Bounds f))
           \<and> (\<forall>x y. Pt_In (Pt x y) (Bounds g) \<longrightarrow> addr g x y = addr f x y)"
proof (cases "Empty (Intersect r (Bounds f))")
  case True
  then have "SubFrame f r = Inr Frame_zero"
    by (simp add: SubFrame_def)
  moreover have "\<not> (Pt_In (Pt x y) r \<and> Pt_In (Pt x y) (Bounds f))" for x y
    using True Empty_Intersect [of r "Bounds f"] Pt_In_Intersect [of "Pt x y" r "Bounds f"] by blast
  ultimately show ?thesis
    using Frame_zero_ok Bounds_Frame_zero by auto
next
  case False
  let ?r = "Intersect r (Bounds f)"
  let ?mx = "X (Min_pt ?r)" and ?my = "Y (Min_pt ?r)"
  let ?Mx = "X (Max_pt ?r)" and ?My = "Y (Max_pt ?r)"
  let ?fx = "X (Min_pt (Bounds f))" and ?fy = "Y (Min_pt (Bounds f))"
  let ?Fx = "X (Max_pt (Bounds f))" and ?Fy = "Y (Max_pt (Bounds f))"
  let ?S = "Stride f"
  let ?off = "CellOffset f ?mx ?my"
  note s = Intersect_sub [OF False]
  from False have minin: "Pt_In (Pt ?mx ?my) ?r"
    by (simp add: Pt_In_def Pt_def Empty_def)
  then have minf: "Pt_In (Pt ?mx ?my) (Bounds f)"
    by (simp add: Pt_In_Intersect)
  then have nef: "\<not> Empty (Bounds f)"
    by (auto simp: Pt_In_def Pt_def Empty_def)
  note o = frame_ok_offset [OF ok minf]
  define g where "g = \<lparr>Data = \<lparr>base = base (Data f) + nat ?off, slen = slen (Data f) - nat ?off\<rparr>,
                        Bounds = ?r, Stride = Stride f\<rparr>"
  have sub: "SubFrame f r = Inr g"
    using False o(2,3) by (simp add: SubFrame_def Let_def slice_from_def and_then_def g_def)
  have bg: "Bounds g = ?r" and sg: "Stride g = Stride f"
    and dg: "slen (Data g) = slen (Data f) - nat ?off" "base (Data g) = base (Data f) + nat ?off"
    by (simp_all add: g_def)
  have lg: "int (slen (Data g)) = int (slen (Data f)) - ?off"
    using o(2,3) by (simp add: dg)
  have inb: "Pt_In (Pt x y) (Bounds g) \<longleftrightarrow> Pt_In (Pt x y) r \<and> Pt_In (Pt x y) (Bounds f)" for x y
    by (simp add: bg Pt_In_Intersect)
  from ok nef have S: "?Fx - ?fx \<le> ?S" and L: "(?Fy - ?fy - 1) * ?S + (?Fx - ?fx) \<le> int (slen (Data f))"
    and B: "int (slen (Data f)) < 2 ^ 63"
    by (simp_all add: frame_ok_def)
  have Spos: "0 < ?S"
    using S s minf by (simp add: Pt_In_def Pt_def)
  have m: "(?My - ?fy - 1) * ?S \<le> (?Fy - ?fy - 1) * ?S"
    using s(4) Spos by (simp add: mult_right_mono)
  have split: "(?My - ?my - 1) * ?S + ((?my - ?fy) * ?S) = (?My - ?fy - 1) * ?S"
    by (simp add: algebra_simps)
  have "(?My - ?my - 1) * ?S + (?Mx - ?mx) + ?off \<le> int (slen (Data f))"
    using o(1) m split L s by linarith
  then have okg: "frame_ok g"
    using B S s o(2) by (simp add: frame_ok_def bg sg lg)
  have ad: "addr g x y = addr f x y" if "Pt_In (Pt x y) (Bounds g)" for x y
  proof -
    from that inb have pf: "Pt_In (Pt x y) (Bounds f)" by simp
    note og = frame_ok_offset [OF okg that]
    note of' = frame_ok_offset [OF ok pf]
    have "CellOffset f x y = ?off + CellOffset g x y"
      by (simp add: og(1) of'(1) o(1) bg sg algebra_simps)
    then show ?thesis
      using og(2) o(2) by (simp add: addr_def dg nat_add_distrib)
  qed
  show ?thesis
    using sub okg inb ad by blast
qed

lemma reachable_frame_ok: "reachable f \<Longrightarrow> frame_ok f"
proof (induction rule: reachable.induct)
  case (root h r f h')
  then show ?case by (rule New_frame_ok)
next
  case (sub f r g)
  then show ?case using SubFrame_ok [of f r] by auto
qed

section \<open>Reading, writing and sharing cells\<close>

lemma New_frame32: "New heap0 (Rect 0 0 3 2) = Inr (frame32, heap32)"
  by (simp add: New_def Let_def and_then_def make_cells_def Dx_def Dy_def wrap64_def heap0_def
      Rect_def Pt_def frame32_def heap32_def cong: if_cong)

lemma no_overflow_32: "no_overflow (Rect 0 0 3 2)"
  by (simp add: no_overflow_def in_int64_def Rect_def Pt_def)

lemma frame32_ok: "frame_ok frame32"
  using New_frame_ok [OF New_frame32 no_overflow_32] .

lemma CellOffset_32: "CellOffset frame32 1 1 = 4" "CellOffset frame32 2 1 = 5"
  by (simp_all add: CellOffset_def frame32_def Rect_def Pt_def wrap64_def)

lemma SubFrame_32: "SubFrame frame32 (Rect 1 1 5 5) = Inr sub32"
  by (simp add: SubFrame_def Intersect_def Let_def Empty_def frame32_def sub32_def Rect_def Pt_def
      CellOffset_def wrap64_def slice_from_def and_then_def)

text \<open>
  Claim C6, amended. For every frame that satisfies the invariant, cell and point inside
  the bounds, \<open>Set\<close> succeeds, and on every frame, whenever \<open>Set\<close> returns, \<open>At\<close> at
  the same point returns the cell written; for every frame and point outside the bounds,
  \<open>At\<close> returns the zero cell whatever the store holds, and \<open>Set\<close> returns the store
  as it was.
\<close>

theorem At_Set_spec:
  "(Pt_In (Pt x y) (Bounds f) \<longrightarrow>
      (frame_ok f \<longrightarrow> (\<exists>h'. Set h f x y c = Inr h'))
      \<and> (\<forall>h'. Set h f x y c = Inr h' \<longrightarrow> At h' f x y = Inr c))
   \<and> (\<not> Pt_In (Pt x y) (Bounds f) \<longrightarrow> At h f x y = Inr Cell_zero \<and> Set h f x y c = Inr h)"
proof (intro conjI impI allI)
  assume "frame_ok f"
  then show "\<exists>h'. Set h f x y c = Inr h'"
    by (simp add: Set_ok)
next
  fix h'
  assume "Pt_In (Pt x y) (Bounds f)" and "Set h f x y c = Inr h'"
  then show "At h' f x y = Inr c"
    by (auto simp: Set_def At_def index_set_def index_get_def split: if_splits)
next
  assume "\<not> Pt_In (Pt x y) (Bounds f)"
  then show "At h f x y = Inr Cell_zero" "Set h f x y c = Inr h"
    by (simp_all add: At_def Set_def)
qed

theorem At_Set_spec_witness:
  "Pt_In (Pt 1 1) (Bounds frame32) \<and> frame_ok frame32
   \<and> Set heap32 frame32 1 1 cell_X = Inr (heap32\<lparr>mem := (mem heap32)(4 := cell_X)\<rparr>)
   \<and> At (heap32\<lparr>mem := (mem heap32)(4 := cell_X)\<rparr>) frame32 1 1 = Inr cell_X
   \<and> \<not> Pt_In (Pt 3 1) (Bounds frame32)
   \<and> At (heap32\<lparr>mem := (mem heap32)(4 := cell_X)\<rparr>) frame32 3 1 = Inr Cell_zero
   \<and> Set heap32 frame32 3 1 cell_X = Inr heap32"
proof -
  have p: "Pt_In (Pt 1 1) (Bounds frame32)" and q: "\<not> Pt_In (Pt 3 1) (Bounds frame32)"
    by (simp_all add: Pt_In_def Pt_def frame32_def Rect_def)
  have s: "Set heap32 frame32 1 1 cell_X = Inr (heap32\<lparr>mem := (mem heap32)(4 := cell_X)\<rparr>)"
    using p by (simp add: Set_def index_set_def CellOffset_32) (simp add: frame32_def)
  show ?thesis
    using p q s frame32_ok
      At_Set_spec [of 1 1 frame32 heap32 cell_X]
      At_Set_spec [of 3 1 frame32 "heap32\<lparr>mem := (mem heap32)(4 := cell_X)\<rparr>" cell_X]
      At_Set_spec [of 3 1 frame32 heap32 cell_X]
    by simp
qed

text \<open>
  Claim C5, amended. For every frame built by \<open>New\<close> from a rectangle whose width, height
  and area are computed without wrap-around of the 64-bit \<open>int\<close>, and by any chain of
  \<open>SubFrame\<close>, the index of every point inside the bounds is
  \<open>(y - Min.Y) * Stride + (x - Min.X)\<close>, it lies within the length of the slice, and
  \<open>At\<close> and \<open>Set\<close> do not panic there.
\<close>

theorem reachable_index_in_range:
  "reachable f \<Longrightarrow> Pt_In (Pt x y) (Bounds f) \<Longrightarrow>
     CellOffset f x y = (y - Y (Min_pt (Bounds f))) * Stride f + (x - X (Min_pt (Bounds f)))
     \<and> 0 \<le> CellOffset f x y \<and> CellOffset f x y < int (slen (Data f))
     \<and> (\<exists>c. At h f x y = Inr c) \<and> (\<exists>h'. Set h f x y c = Inr h')"
  using frame_ok_offset [of f x y] reachable_frame_ok [of f]
  by (simp add: At_ok Set_ok)

theorem reachable_index_in_range_witness:
  "reachable sub32 \<and> Pt_In (Pt 2 1) (Bounds sub32)
   \<and> CellOffset sub32 2 1 = 1 \<and> slen (Data sub32) = 2
   \<and> At heap32 sub32 2 1 = Inr Cell_zero
   \<and> Set heap32 sub32 2 1 cell_X = Inr (heap32\<lparr>mem := (mem heap32)(5 := cell_X)\<rparr>)"
proof -
  have r: "reachable sub32"
    by (rule reachable.sub [OF reachable.root [OF New_frame32 no_overflow_32] SubFrame_32])
  have p: "Pt_In (Pt 2 1) (Bounds sub32)"
    by (simp add: Pt_In_def Pt_def sub32_def Rect_def)
  have o: "CellOffset sub32 2 1 = 1"
    by (simp add: CellOffset_def sub32_def Rect_def Pt_def wrap64_def)
  show ?thesis
    using reachable_index_in_range [OF r p, of heap32 cell_X] r p
    by (simp add: o At_def Set_def index_get_def index_set_def)
      (simp add: sub32_def heap32_def)
qed

text \<open>
  Claim C5 as it is stated fails when \<open>New\<close> wraps around: for the rectangle from
  \<open>(-2^62-1, -2^62-1)\<close> to \<open>(2^62, 2^62)\<close> the width and the height wrap to
  \<open>-2^63+1\<close>, their product wraps to 1, \<open>New\<close> allocates one cell, the point
  \<open>(0, 0)\<close> is inside the bounds and its index is 2.
\<close>

theorem New_index_counterexample:
  "New heap0 big_rect = Inr (big_frame, heap0\<lparr>brk := 1\<rparr>)
   \<and> Pt_In (Pt 0 0) (Bounds big_frame)
   \<and> slen (Data big_frame) = 1 \<and> CellOffset big_frame 0 0 = 2
   \<and> At (heap0\<lparr>brk := 1\<rparr>) big_frame 0 0 = Inl IndexOutOfRange
   \<and> Set (heap0\<lparr>brk := 1\<rparr>) big_frame 0 0 cell_X = Inl IndexOutOfRange"
proof -
  have o: "CellOffset big_frame 0 0 = 2"
    by (simp add: CellOffset_def big_frame_def big_rect_def Pt_def wrap64_def)
  have p: "Pt_In (Pt 0 0) (Bounds big_frame)"
    by (simp add: Pt_In_def Pt_def big_frame_def big_rect_def)
  have n: "New heap0 big_rect = Inr (big_frame, heap0\<lparr>brk := 1\<rparr>)"
    by (simp add: New_def Let_def and_then_def make_cells_def Dx_def Dy_def wrap64_def heap0_def
      big_rect_def Pt_def big_frame_def cong: if_cong)
  show ?thesis
    using n p by (simp add: o At_def Set_def index_get_def index_set_def) (simp add: big_frame_def)
qed

text \<open>
  Claim C4, amended. For a parent frame that satisfies the invariant, a sub-frame of it with
  non-empty bounds and a point inside the bounds of the sub-frame: a \<open>Set\<close> through the
  sub-frame succeeds and \<open>At\<close> through the parent then returns the written cell; a
  \<open>Set\<close> through the parent succeeds and \<open>At\<close> through the sub-frame then returns the
  written cell; and on every store both frames read the same cell at that point.
\<close>

theorem SubFrame_aliasing:
  assumes "frame_ok f" and "SubFrame f r = Inr g" and "\<not> Empty (Bounds g)"
    and "Pt_In (Pt x y) (Bounds g)"
  shows "(\<exists>h'. Set h g x y c = Inr h' \<and> At h' f x y = Inr c)
       \<and> (\<exists>h'. Set h f x y c = Inr h' \<and> At h' g x y = Inr c)
       \<and> At h g x y = At h f x y"
proof -
  from SubFrame_ok [OF assms(1), of r] assms(2,4)
  have g: "frame_ok g" and pf: "Pt_In (Pt x y) (Bounds f)" and a: "addr g x y = addr f x y"
    by auto
  show ?thesis
    using assms(1,4) g pf a
    by (simp add: Set_ok At_ok cell_at_def addr_def)
qed

theorem SubFrame_aliasing_witness:
  "frame_ok frame32 \<and> SubFrame frame32 (Rect 1 1 5 5) = Inr sub32 \<and> \<not> Empty (Bounds sub32)
   \<and> Pt_In (Pt 2 1) (Bounds sub32)
   \<and> Set heap32 sub32 2 1 cell_X = Inr (heap32\<lparr>mem := (mem heap32)(5 := cell_X)\<rparr>)
   \<and> At (heap32\<lparr>mem := (mem heap32)(5 := cell_X)\<rparr>) frame32 2 1 = Inr cell_X
   \<and> Set heap32 frame32 2 1 cell_X = Inr (heap32\<lparr>mem := (mem heap32)(5 := cell_X)\<rparr>)
   \<and> At (heap32\<lparr>mem := (mem heap32)(5 := cell_X)\<rparr>) sub32 2 1 = Inr cell_X"
proof -
  have e: "\<not> Empty (Bounds sub32)" and p: "Pt_In (Pt 2 1) (Bounds sub32)"
    by (simp_all add: Empty_def Pt_In_def Pt_def sub32_def Rect_def)
  have o: "CellOffset sub32 2 1 = 1"
    by (simp add: CellOffset_def sub32_def Rect_def Pt_def wrap64_def)
  have pf: "Pt_In (Pt 2 1) (Bounds frame32)"
    by (simp add: Pt_In_def Pt_def frame32_def Rect_def)
  have s1: "Set heap32 sub32 2 1 cell_X = Inr (heap32\<lparr>mem := (mem heap32)(5 := cell_X)\<rparr>)"
    using p by (simp add: Set_def index_set_def o) (simp add: sub32_def)
  have s2: "Set heap32 frame32 2 1 cell_X = Inr (heap32\<lparr>mem := (mem heap32)(5 := cell_X)\<rparr>)"
    using pf by (simp add: Set_def index_set_def CellOffset_32) (simp add: frame32_def)
  show ?thesis
    using SubFrame_aliasing [OF frame32_ok SubFrame_32 e p, of heap32 cell_X] frame32_ok SubFrame_32 e p
    by (simp add: s1 s2)
qed

section \<open>Filling a rectangle\<close>

lemma Set_cell_at:
  assumes ok: "frame_ok f" and s: "Set h f x y c = Inr h'"
  shows "cell_at h' f x' y' =
           (if x' = x \<and> y' = y \<and> Pt_In (Pt x y) (Bounds f) then c else cell_at h f x' y')"
proof (cases "Pt_In (Pt x y) (Bounds f)")
  case False
  with s ok show ?thesis by (simp add: Set_ok)
next
  case p: True
  with s ok have h': "h' = h\<lparr>mem := (mem h)(addr f x y := c)\<rparr>"
    by (simp add: Set_ok)
  show ?thesis
  proof (cases "Pt_In (Pt x' y') (Bounds f)")
    case False
    then show ?thesis by (auto simp: cell_at_def)
  next
    case q: True
    have "addr f x' y' = addr f x y \<longleftrightarrow> x' = x \<and> y' = y"
    proof
      assume "addr f x' y' = addr f x y"
      then have "CellOffset f x' y' = CellOffset f x y"
        using frame_ok_offset(2) [OF ok p] frame_ok_offset(2) [OF ok q] by (simp add: addr_def)
      then show "x' = x \<and> y' = y"
        using frame_ok_inj [OF ok q p] by simp
    qed simp
    then show ?thesis
      using p q by (auto simp: cell_at_def h' addr_def)
  qed
qed

lemma FillRect_cols_spec:
  "frame_ok f \<Longrightarrow>
   \<exists>h'. FillRect_cols h f r c y x = Inr h' \<and>
     (\<forall>x' y'. cell_at h' f x' y' =
        (if y' = y \<and> x \<le> x' \<and> x' < X (Max_pt r) \<and> Pt_In (Pt x' y') (Bounds f) then c
         else cell_at h f x' y'))"
proof (induction h f r c y x rule: FillRect_cols.induct)
  case (1 h f r c y x)
  show ?case
  proof (cases "x < X (Max_pt r)")
    case False
    then show ?thesis by (auto simp: FillRect_cols.simps [of h f r c y x])
  next
    case True
    from Set_ok [OF "1.prems"] obtain h1 where s: "Set h f x y c = Inr h1"
      by blast
    from "1.IH" [OF True s "1.prems"] obtain h' where
      l: "FillRect_cols h1 f r c y (x + 1) = Inr h'" and
      c: "\<And>x' y'. cell_at h' f x' y' =
        (if y' = y \<and> x + 1 \<le> x' \<and> x' < X (Max_pt r) \<and> Pt_In (Pt x' y') (Bounds f) then c
         else cell_at h1 f x' y')"
      by blast
    have "FillRect_cols h f r c y x = Inr h'"
      using True s l by (simp add: FillRect_cols.simps [of h f r c y x])
    moreover have "cell_at h' f x' y' =
        (if y' = y \<and> x \<le> x' \<and> x' < X (Max_pt r) \<and> Pt_In (Pt x' y') (Bounds f) then c
         else cell_at h f x' y')" for x' y'
    proof -
      have "x \<le> x' \<longleftrightarrow> x' = x \<or> x + 1 \<le> x'" by linarith
      then show ?thesis
        using True by (auto simp: c Set_cell_at [OF "1.prems" s])
    qed
    ultimately show ?thesis by blast
  qed
qed

lemma FillRect_rows_spec:
  "frame_ok f \<Longrightarrow>
   \<exists>h'. FillRect_rows h f r c y = Inr h' \<and>
     (\<forall>x' y'. cell_at h' f x' y' =
        (if y \<le> y' \<and> y' < Y (Max_pt r) \<and> X (Min_pt r) \<le> x' \<and> x' < X (Max_pt r)
            \<and> Pt_In (Pt x' y') (Bounds f) then c
         else cell_at h f x' y'))"
proof (induction h f r c y rule: FillRect_rows.induct)
  case (1 h f r c y)
  show ?case
  proof (cases "y < Y (Max_pt r)")
    case False
    then show ?thesis by (auto simp: FillRect_rows.simps [of h f r c y])
  next
    case True
    from FillRect_cols_spec [OF "1.prems", of h r c y "X (Min_pt r)"] obtain h1 where
      s: "FillRect_cols h f r c y (X (Min_pt r)) = Inr h1" and
      c1: "\<And>x' y'. cell_at h1 f x' y' =
        (if y' = y \<and> X (Min_pt r) \<le> x' \<and> x' < X (Max_pt r) \<and> Pt_In (Pt x' y') (Bounds f) then c
         else cell_at h f x' y')"
      by blast
    from "1.IH" [OF True s "1.prems"] obtain h' where
      l: "FillRect_rows h1 f r c (y + 1) = Inr h'" and
      c: "\<And>x' y'. cell_at h' f x' y' =
        (if y + 1 \<le> y' \<and> y' < Y (Max_pt r) \<and> X (Min_pt r) \<le> x' \<and> x' < X (Max_pt r)
            \<and> Pt_In (Pt x' y') (Bounds f) then c
         else cell_at h1 f x' y')"
      by blast
    have "FillRect_rows h f r c y = Inr h'"
      using True s l by (simp add: FillRect_rows.simps [of h f r c y])
    moreover have "cell_at h' f x' y' =
        (if y \<le> y' \<and> y' < Y (Max_pt r) \<and> X (Min_pt r) \<le> x' \<and> x' < X (Max_pt r)
            \<and> Pt_In (Pt x' y') (Bounds f) then c
         else cell_at h f x' y')" for x' y'
    proof -
      have "y \<le> y' \<longleftrightarrow> y' = y \<or> y + 1 \<le> y'" by linarith
      then show ?thesis
        using True by (auto simp: c c1)
    qed
    ultimately show ?thesis by blast
  qed
qed

lemma FillRect_spec:
  assumes ok: "frame_ok f"
  shows "\<exists>h'. FillRect h f r c = Inr h' \<and>
     (\<forall>x y. cell_at h' f x y =
        (if Pt_In (Pt x y) (Intersect (Bounds f) r) then c else cell_at h f x y))"
proof (cases "Empty (Intersect (Bounds f) r)")
  case True
  then have "FillRect h f r c = Inr h"
    by (simp add: FillRect_def)
  moreover have "\<not> Pt_In (Pt x y) (Intersect (Bounds f) r)" for x y
    using True Empty_Intersect by blast
  ultimately show ?thesis by simp
next
  case False
  let ?r = "Intersect (Bounds f) r"
  from FillRect_rows_spec [OF ok, of h ?r c "Y (Min_pt ?r)"] obtain h' where
    l: "FillRect_rows h f ?r c (Y (Min_pt ?r)) = Inr h'" and
    c: "\<And>x' y'. cell_at h' f x' y' =
        (if Y (Min_pt ?r) \<le> y' \<and> y' < Y (Max_pt ?r) \<and> X (Min_pt ?r) \<le> x' \<and> x' < X (Max_pt ?r)
            \<and> Pt_In (Pt x' y') (Bounds f) then c
         else cell_at h f x' y')"
    by blast
  have "FillRect h f r c = Inr h'"
    using False l by (simp add: FillRect_def Let_def)
  moreover have "cell_at h' f x y =
        (if Pt_In (Pt x y) ?r then c else cell_at h f x y)" for x y
    using Pt_In_Intersect [of "Pt x y" "Bounds f" r]
    by (auto simp: c) (auto simp: Pt_In_def Pt_def)
  ultimately show ?thesis by blast
qed

text \<open>
  Claim C7, amended. For every frame that satisfies the invariant, rectangle and cell: \<open>FillRect\<close>
  returns; afterwards \<open>At\<close> gives the fill cell at every point of the intersection of
  the rectangle with the bounds, and what it gave before at every other point; and when
  the intersection is empty the store is the one before the call.
\<close>

theorem FillRect_At:
  assumes "frame_ok f"
  shows "\<exists>h'. FillRect h f r c = Inr h'
       \<and> (\<forall>x y. Pt_In (Pt x y) (Intersect (Bounds f) r) \<longrightarrow> At h' f x y = Inr c)
       \<and> (\<forall>x y. \<not> Pt_In (Pt x y) (Intersect (Bounds f) r) \<longrightarrow> At h' f x y = At h f x y)
       \<and> (Empty (Intersect (Bounds f) r) \<longrightarrow> h' = h)"
proof -
  from FillRect_spec [OF assms, of h r c] obtain h' where
    l: "FillRect h f r c = Inr h'" and
    c: "\<And>x y. cell_at h' f x y =
        (if Pt_In (Pt x y) (Intersect (Bounds f) r) then c else cell_at h f x y)"
    by blast
  have "Empty (Intersect (Bounds f) r) \<longrightarrow> h' = h"
    using l by (auto simp: FillRect_def)
  then show ?thesis
    using l c by (simp add: At_ok [OF assms])
qed


theorem FillRect_At_witness:
  "frame_ok frame32
   \<and> Pt_In (Pt 1 0) (Intersect (Bounds frame32) (Rect 1 0 5 1))
   \<and> \<not> Pt_In (Pt 1 1) (Intersect (Bounds frame32) (Rect 1 0 5 1))
   \<and> (\<exists>h'. FillRect heap32 frame32 (Rect 1 0 5 1) cell_X = Inr h'
          \<and> At h' frame32 1 0 = Inr cell_X
          \<and> At h' frame32 1 1 = Inr Cell_zero)
   \<and> Empty (Intersect (Bounds frame32) (Rect 7 7 9 9))
   \<and> FillRect heap32 frame32 (Rect 7 7 9 9) cell_X = Inr heap32"
proof -
  have p: "Pt_In (Pt 1 0) (Intersect (Bounds frame32) (Rect 1 0 5 1))"
    and q: "\<not> Pt_In (Pt 1 1) (Intersect (Bounds frame32) (Rect 1 0 5 1))"
    by (simp_all add: Pt_In_Intersect) (simp_all add: Pt_In_def Pt_def frame32_def Rect_def)
  have e: "Empty (Intersect (Bounds frame32) (Rect 7 7 9 9))"
    by (simp add: Intersect_def Let_def Empty_def ZR_def Pt_def frame32_def Rect_def)
  have a: "At heap32 frame32 1 1 = Inr Cell_zero"
    by (simp add: At_ok [OF frame32_ok] cell_at_def heap32_def)
  show ?thesis
    using FillRect_At [OF frame32_ok, of heap32 "Rect 1 0 5 1" cell_X]
      FillRect_At [OF frame32_ok, of heap32 "Rect 7 7 9 9" cell_X] p q e a frame32_ok
    by auto
qed

section \<open>Printing a rectangle\<close>

lemma Color_String_ok: "colour_ok c \<Longrightarrow> Color_String c = Inr (colour_esc c)"
  by (simp add: Color_String_def FormatColor_def colour_ok_def colour_esc_def Let_def not_less)

lemma Color_String_bad: "\<not> colour_ok c \<Longrightarrow> \<exists>e. Color_String c = Inl e"
  by (auto simp: Color_String_def FormatColor_def colour_ok_def not_le)

lemma colour_ok_zero: "colour_ok Color_zero"
  by (simp add: colour_ok_def Color_zero_def)

lemma PrintRect_cell_eq:
  "frame_ok f \<Longrightarrow>
   PrintRect_cell h f x y st =
     (if fst st \<noteq> C (shown h f x y)
      then (case Color_String (C (shown h f x y)) of
              Inl e \<Rightarrow> Inl e
            | Inr s \<Rightarrow> Inr (C (shown h f x y), snd st @ s @ EncodeRune (R (shown h f x y))))
      else Inr (fst st, snd st @ EncodeRune (R (shown h f x y))))"
  by (auto simp: PrintRect_cell_def At_ok shown_def Let_def split: sum.splits)

lemma PrintRect_cell_ok:
  assumes "frame_ok f" and "colour_ok (C (shown h f x y))" and "fst st = prev_colour h f r x y"
  shows "PrintRect_cell h f x y st = Inr (C (shown h f x y), snd st @ cell_out h f r x y)"
  using assms by (simp add: PrintRect_cell_eq Color_String_ok cell_out_def)

lemma PrintRect_cell_Inr:
  assumes "frame_ok f" and "colour_ok (fst st)" and "PrintRect_cell h f x y st = Inr st'"
  shows "colour_ok (C (shown h f x y)) \<and> fst st' = C (shown h f x y)"
proof (cases "colour_ok (C (shown h f x y))")
  case True
  with assms show ?thesis
    by (auto simp: PrintRect_cell_eq Color_String_ok split: if_splits)
next
  case False
  then have ne: "fst st \<noteq> C (shown h f x y)"
    using assms(2) by auto
  from Color_String_bad [OF False] obtain e where "Color_String (C (shown h f x y)) = Inl e" ..
  with assms ne show ?thesis
    by (simp add: PrintRect_cell_eq)
qed

lemma PrintRect_cols_ok:
  "frame_ok f \<Longrightarrow> X (Min_pt r) \<le> x \<Longrightarrow>
   (\<forall>x'. x \<le> x' \<and> x' < X (Max_pt r) \<longrightarrow> colour_ok (C (shown h f x' y))) \<Longrightarrow>
   (x < X (Max_pt r) \<longrightarrow> fst st = prev_colour h f r x y) \<Longrightarrow>
   PrintRect_cols h f r y x st =
     Inr (if x < X (Max_pt r) then C (shown h f (X (Max_pt r) - 1) y) else fst st,
          snd st @ concat (map (\<lambda>x'. cell_out h f r x' y) [x..X (Max_pt r) - 1]))"
proof (induction h f r y x st rule: PrintRect_cols.induct)
  case (1 h f r y x st)
  show ?case
  proof (cases "x < X (Max_pt r)")
    case False
    then show ?thesis
      by (simp add: PrintRect_cols.simps [of h f r y x st])
  next
    case True
    let ?st1 = "(C (shown h f x y), snd st @ cell_out h f r x y)"
    have cell: "PrintRect_cell h f x y st = Inr ?st1"
      using "1.prems" True by (intro PrintRect_cell_ok) auto
    have pc: "x + 1 < X (Max_pt r) \<longrightarrow> fst ?st1 = prev_colour h f r (x + 1) y"
      using "1.prems"(2) by (simp add: prev_colour_def)
    have rest: "PrintRect_cols h f r y (x + 1) ?st1 =
       Inr (if x + 1 < X (Max_pt r) then C (shown h f (X (Max_pt r) - 1) y) else fst ?st1,
            snd ?st1 @ concat (map (\<lambda>x'. cell_out h f r x' y) [x + 1..X (Max_pt r) - 1]))"
      using "1.prems" by (intro "1.IH" [OF True cell] pc) auto
    have up: "[x..X (Max_pt r) - 1] = x # [x + 1..X (Max_pt r) - 1]"
      using True by (simp add: upto_rec1)
    show ?thesis
    proof (cases "x + 1 < X (Max_pt r)")
      case True
      with \<open>x < X (Max_pt r)\<close> cell rest show ?thesis
        by (simp add: PrintRect_cols.simps [of h f r y x st] up)
    next
      case False
      with \<open>x < X (Max_pt r)\<close> have "X (Max_pt r) - 1 = x" by simp
      with False \<open>x < X (Max_pt r)\<close> cell rest show ?thesis
        by (simp add: PrintRect_cols.simps [of h f r y x st] up)
    qed
  qed
qed

lemma PrintRect_cols_Inr:
  "frame_ok f \<Longrightarrow> colour_ok (fst st) \<Longrightarrow> PrintRect_cols h f r y x st = Inr st' \<Longrightarrow>
   (\<forall>x'. x \<le> x' \<and> x' < X (Max_pt r) \<longrightarrow> colour_ok (C (shown h f x' y))) \<and> colour_ok (fst st')"
proof (induction h f r y x st rule: PrintRect_cols.induct)
  case (1 h f r y x st)
  show ?case
  proof (cases "x < X (Max_pt r)")
    case False
    with "1.prems" show ?thesis
      by (auto simp: PrintRect_cols.simps [of h f r y x st])
  next
    case True
    with "1.prems"(3) obtain st1 where
      cell: "PrintRect_cell h f x y st = Inr st1" and
      rest: "PrintRect_cols h f r y (x + 1) st1 = Inr st'"
      by (auto simp: PrintRect_cols.simps [of h f r y x st] split: sum.splits)
    from PrintRect_cell_Inr [OF "1.prems"(1,2) cell]
    have c: "colour_ok (C (shown h f x y))" and s1: "colour_ok (fst st1)"
      by simp_all
    from "1.IH" [OF True cell "1.prems"(1) s1 rest]
    have ih: "\<forall>x'. x + 1 \<le> x' \<and> x' < X (Max_pt r) \<longrightarrow> colour_ok (C (shown h f x' y))"
      and e: "colour_ok (fst st')"
      by simp_all
    have "colour_ok (C (shown h f x' y))" if "x \<le> x'" "x' < X (Max_pt r)" for x'
    proof (cases "x' = x")
      case True
      then show ?thesis using c by simp
    next
      case False
      with that have "x + 1 \<le> x'" by simp
      with ih that show ?thesis by simp
    qed
    with e show ?thesis by simp
  qed
qed


lemma PrintRect_rows_ok:
  "frame_ok f \<Longrightarrow> Y (Min_pt r) \<le> y \<Longrightarrow>
   (\<forall>x' y'. y \<le> y' \<and> y' < Y (Max_pt r) \<and> X (Min_pt r) \<le> x' \<and> x' < X (Max_pt r)
       \<longrightarrow> colour_ok (C (shown h f x' y'))) \<Longrightarrow>
   (y < Y (Max_pt r) \<and> X (Min_pt r) < X (Max_pt r) \<longrightarrow> fst st = prev_colour h f r (X (Min_pt r)) y) \<Longrightarrow>
   \<exists>col'. PrintRect_rows h f r y st =
     Inr (col', snd st @ concat (map (row_out h f r) [y..Y (Max_pt r) - 1]))"
proof (induction h f r y st rule: PrintRect_rows.induct)
  case (1 h f r y st)
  show ?case
  proof (cases "y < Y (Max_pt r)")
    case False
    then have "PrintRect_rows h f r y st = Inr (fst st, snd st @ concat (map (row_out h f r) [y..Y (Max_pt r) - 1]))"
      by (simp add: PrintRect_rows.simps [of h f r y st])
    then show ?thesis ..
  next
    case True
    let ?st0 = "(fst st, snd st @ FormatMoveTo (y + 1) (X (Min_pt r)))"
    let ?st1 = "(if X (Min_pt r) < X (Max_pt r) then C (shown h f (X (Max_pt r) - 1) y) else fst st,
                 snd st @ row_out h f r y)"
    have "PrintRect_cols h f r y (X (Min_pt r)) ?st0 =
       Inr (if X (Min_pt r) < X (Max_pt r) then C (shown h f (X (Max_pt r) - 1) y) else fst ?st0,
            snd ?st0 @ concat (map (\<lambda>x'. cell_out h f r x' y) [X (Min_pt r)..X (Max_pt r) - 1]))"
      using "1.prems" True by (intro PrintRect_cols_ok) auto
    then have cols: "PrintRect_cols h f r y (X (Min_pt r)) ?st0 = Inr ?st1"
      by (simp add: row_out_def)
    have pc: "y + 1 < Y (Max_pt r) \<and> X (Min_pt r) < X (Max_pt r) \<longrightarrow>
        fst ?st1 = prev_colour h f r (X (Min_pt r)) (y + 1)"
      using "1.prems"(2) by (simp add: prev_colour_def)
    have "\<exists>col'. PrintRect_rows h f r (y + 1) ?st1 =
       Inr (col', snd ?st1 @ concat (map (row_out h f r) [y + 1..Y (Max_pt r) - 1]))"
      using "1.prems" by (intro "1.IH" [OF True cols] pc) auto
    then obtain col' where rest: "PrintRect_rows h f r (y + 1) ?st1 =
       Inr (col', snd ?st1 @ concat (map (row_out h f r) [y + 1..Y (Max_pt r) - 1]))" ..
    have up: "[y..Y (Max_pt r) - 1] = y # [y + 1..Y (Max_pt r) - 1]"
      using True by (simp add: upto_rec1)
    have "PrintRect_rows h f r y st =
       Inr (col', snd st @ concat (map (row_out h f r) [y..Y (Max_pt r) - 1]))"
      using True cols rest by (simp add: PrintRect_rows.simps [of h f r y st] up)
    then show ?thesis ..
  qed
qed

lemma PrintRect_rows_Inr:
  "frame_ok f \<Longrightarrow> colour_ok (fst st) \<Longrightarrow> PrintRect_rows h f r y st = Inr st' \<Longrightarrow>
   (\<forall>x' y'. y \<le> y' \<and> y' < Y (Max_pt r) \<and> X (Min_pt r) \<le> x' \<and> x' < X (Max_pt r)
       \<longrightarrow> colour_ok (C (shown h f x' y'))) \<and> colour_ok (fst st')"
proof (induction h f r y st rule: PrintRect_rows.induct)
  case (1 h f r y st)
  show ?case
  proof (cases "y < Y (Max_pt r)")
    case False
    with "1.prems" show ?thesis
      by (auto simp: PrintRect_rows.simps [of h f r y st])
  next
    case True
    let ?st0 = "(fst st, snd st @ FormatMoveTo (y + 1) (X (Min_pt r)))"
    from True "1.prems"(3) obtain st1 where
      cols: "PrintRect_cols h f r y (X (Min_pt r)) ?st0 = Inr st1" and
      rest: "PrintRect_rows h f r (y + 1) st1 = Inr st'"
      by (auto simp: PrintRect_rows.simps [of h f r y st] split: sum.splits)
    have "colour_ok (fst ?st0)"
      using "1.prems"(2) by simp
    from PrintRect_cols_Inr [OF "1.prems"(1) this cols]
    have row: "\<forall>x'. X (Min_pt r) \<le> x' \<and> x' < X (Max_pt r) \<longrightarrow> colour_ok (C (shown h f x' y))"
      and s1: "colour_ok (fst st1)"
      by simp_all
    from "1.IH" [OF True cols "1.prems"(1) s1 rest]
    have ih: "\<forall>x' y'. y + 1 \<le> y' \<and> y' < Y (Max_pt r) \<and> X (Min_pt r) \<le> x' \<and> x' < X (Max_pt r)
       \<longrightarrow> colour_ok (C (shown h f x' y'))"
      and e: "colour_ok (fst st')"
      by simp_all
    have "colour_ok (C (shown h f x' y'))"
      if "y \<le> y'" "y' < Y (Max_pt r)" "X (Min_pt r) \<le> x'" "x' < X (Max_pt r)" for x' y'
    proof (cases "y' = y")
      case True
      then show ?thesis using row that by simp
    next
      case False
      with that have "y + 1 \<le> y'" by simp
      with ih that show ?thesis by simp
    qed
    with e show ?thesis by simp
  qed
qed

lemma PrintRect_closed:
  assumes ok: "frame_ok f"
  shows "PrintRect pb h f r = Inr out \<longleftrightarrow>
     (\<forall>x y. Pt_In (Pt x y) r \<longrightarrow> colour_ok (C (shown h f x y)))
     \<and> out = concat (map (row_out h f r) [Y (Min_pt r)..Y (Max_pt r) - 1])"
proof
  assume out: "PrintRect pb h f r = Inr out"
  then obtain st' where rows: "PrintRect_rows h f r (Y (Min_pt r)) (Color_zero, []) = Inr st'"
    and o: "out = snd st'"
    by (auto simp: PrintRect_def split: sum.splits)
  from PrintRect_rows_Inr [OF ok _ rows]
  have all: "\<forall>x' y'. Y (Min_pt r) \<le> y' \<and> y' < Y (Max_pt r) \<and> X (Min_pt r) \<le> x' \<and> x' < X (Max_pt r)
       \<longrightarrow> colour_ok (C (shown h f x' y'))"
    by (simp add: colour_ok_zero)
  then have v: "\<forall>x y. Pt_In (Pt x y) r \<longrightarrow> colour_ok (C (shown h f x y))"
    by (simp add: Pt_In_def Pt_def)
  have "\<exists>col'. PrintRect_rows h f r (Y (Min_pt r)) (Color_zero, []) =
     Inr (col', snd (Color_zero, []::string) @ concat (map (row_out h f r) [Y (Min_pt r)..Y (Max_pt r) - 1]))"
    using all by (intro PrintRect_rows_ok [OF ok]) (auto simp: prev_colour_def)
  with rows o have "out = concat (map (row_out h f r) [Y (Min_pt r)..Y (Max_pt r) - 1])"
    by auto
  with v show "(\<forall>x y. Pt_In (Pt x y) r \<longrightarrow> colour_ok (C (shown h f x y)))
     \<and> out = concat (map (row_out h f r) [Y (Min_pt r)..Y (Max_pt r) - 1])"
    by simp
next
  assume a: "(\<forall>x y. Pt_In (Pt x y) r \<longrightarrow> colour_ok (C (shown h f x y)))
     \<and> out = concat (map (row_out h f r) [Y (Min_pt r)..Y (Max_pt r) - 1])"
  then have all: "\<forall>x' y'. Y (Min_pt r) \<le> y' \<and> y' < Y (Max_pt r) \<and> X (Min_pt r) \<le> x' \<and> x' < X (Max_pt r)
       \<longrightarrow> colour_ok (C (shown h f x' y'))"
    by (simp add: Pt_In_def Pt_def)
  have "\<exists>col'. PrintRect_rows h f r (Y (Min_pt r)) (Color_zero, []) =
     Inr (col', snd (Color_zero, []::string) @ concat (map (row_out h f r) [Y (Min_pt r)..Y (Max_pt r) - 1]))"
    using all by (intro PrintRect_rows_ok [OF ok]) (auto simp: prev_colour_def)
  with a show "PrintRect pb h f r = Inr out"
    by (auto simp: PrintRect_def)
qed


lemma PrintRect_printBuf: "PrintRect pb' h f r = PrintRect pb h f r"
  by (simp add: PrintRect_def)

lemma shown_outside:
  "\<not> Pt_In (Pt x y) (Bounds f) \<Longrightarrow> shown h f x y = \<lparr>R = 32, C = Color_zero\<rparr>"
  by (simp add: shown_def cell_at_def Cell_zero_def)

lemma FormatMoveTo_eq: "FormatMoveTo l c = CSI @ FormatInt l @ '';'' @ FormatInt c @ ''H''"
  by (simp add: FormatMoveTo_def)

lemma shown_heap32: "shown heap32 frame32 x y = \<lparr>R = 32, C = Color_zero\<rparr>"
  by (simp add: shown_def cell_at_def heap32_def Cell_zero_def)

lemma PrintRect_heapX:
  "PrintRect pb heapX frame32 (Bounds frame32) =
     Inr (CHR 0x1B # ''[1;0H   '' @ CHR 0x1B # ''[2;0H '' @ CHR 0x1B # ''[0;31;40mX''
          @ CHR 0x1B # ''[0;30;40m '')"
  unfolding PrintRect_printBuf [of pb heapX frame32 "Bounds frame32" "[]"] by code_simp

lemma PrintRect_heap32:
  "PrintRect pb heap32 frame32 (Rect 0 1 3 3) =
     Inr (CHR 0x1B # ''[2;0H   '' @ CHR 0x1B # ''[3;0H   '')"
  unfolding PrintRect_printBuf [of pb heap32 frame32 "Rect 0 1 3 3" "[]"] by code_simp

text \<open>
  Claim C8, amended. For a frame that satisfies the invariant, one call of \<open>PrintRect\<close> returns
  exactly when every cell of the rectangle has an in-range colour, and its output is then,
  row by row, the cursor sequence followed for each cell by the colour escape sequence of
  the cell, present if and only if the colour of the cell differs from the colour of the
  cell rendered before it in the same call (the zero colour before the first cell), and
  by the glyph. The output does not depend on what an earlier call left in \<open>printBuf\<close>.
\<close>

theorem PrintRect_colour_runs:
  assumes "frame_ok f"
  shows "(PrintRect pb h f r = Inr out \<longleftrightarrow>
            (\<forall>x y. Pt_In (Pt x y) r \<longrightarrow> colour_ok (C (shown h f x y)))
            \<and> out = concat (map (\<lambda>y. FormatMoveTo (y + 1) (X (Min_pt r)) @ concat (map (\<lambda>x.
                  (if prev_colour h f r x y \<noteq> C (shown h f x y)
                   then colour_esc (C (shown h f x y)) else [])
                  @ EncodeRune (R (shown h f x y)))
                [X (Min_pt r)..X (Max_pt r) - 1])) [Y (Min_pt r)..Y (Max_pt r) - 1]))
       \<and> PrintRect pb' h f r = PrintRect pb h f r"
proof -
  have "row_out h f r = (\<lambda>y. FormatMoveTo (y + 1) (X (Min_pt r)) @ concat (map (\<lambda>x.
                  (if prev_colour h f r x y \<noteq> C (shown h f x y)
                   then colour_esc (C (shown h f x y)) else [])
                  @ EncodeRune (R (shown h f x y)))
                [X (Min_pt r)..X (Max_pt r) - 1]))"
    by (rule ext) (simp add: row_out_def cell_out_def)
  then show ?thesis
    using PrintRect_closed [OF assms, of pb h r out] PrintRect_printBuf [of pb' h f r pb]
    by simp
qed

theorem PrintRect_colour_runs_witness:
  "frame_ok frame32
   \<and> PrintRect ''old'' heapX frame32 (Bounds frame32) =
       Inr (CHR 0x1B # ''[1;0H   '' @ CHR 0x1B # ''[2;0H '' @ CHR 0x1B # ''[0;31;40mX''
            @ CHR 0x1B # ''[0;30;40m '')
   \<and> CHR 0x1B # ''[1;0H   '' @ CHR 0x1B # ''[2;0H '' @ CHR 0x1B # ''[0;31;40mX''
            @ CHR 0x1B # ''[0;30;40m '' =
       concat (map (\<lambda>y. FormatMoveTo (y + 1) (X (Min_pt (Bounds frame32))) @ concat (map (\<lambda>x.
                  (if prev_colour heapX frame32 (Bounds frame32) x y \<noteq> C (shown heapX frame32 x y)
                   then colour_esc (C (shown heapX frame32 x y)) else [])
                  @ EncodeRune (R (shown heapX frame32 x y)))
                [X (Min_pt (Bounds frame32))..X (Max_pt (Bounds frame32)) - 1]))
              [Y (Min_pt (Bounds frame32))..Y (Max_pt (Bounds frame32)) - 1])
   \<and> PrintRect [] heapX frame32 (Bounds frame32) = PrintRect ''old'' heapX frame32 (Bounds frame32)"
  using PrintRect_colour_runs [OF frame32_ok, of "''old''" heapX "Bounds frame32"
      "CHR 0x1B # ''[1;0H   '' @ CHR 0x1B # ''[2;0H '' @ CHR 0x1B # ''[0;31;40mX''
            @ CHR 0x1B # ''[0;30;40m ''" "[]"]
    frame32_ok PrintRect_heapX [of "''old''"]
  by simp

text \<open>
  Claim C2, amended. For a frame that satisfies the invariant and a rectangle whose cells
  have in-range colours, \<open>PrintRect\<close> returns one block for every row of the rectangle
  itself, from \<open>Min.Y\<close> to \<open>Max.Y - 1\<close> in this order, whether or not the row meets the
  bounds of the frame; each block begins with a cursor-position sequence whose line is the
  row plus one, and then renders every column of the rectangle; a point outside the bounds
  is rendered as a space in the zero colour.
\<close>

theorem PrintRect_rows_of_rect:
  assumes "frame_ok f" and "\<forall>x y. Pt_In (Pt x y) r \<longrightarrow> colour_ok (C (shown h f x y))"
  shows "(\<exists>cs. PrintRect pb h f r =
            Inr (concat (map (\<lambda>y. CSI @ FormatInt (y + 1) @ '';'' @ cs @ ''H''
                   @ concat (map (\<lambda>x. cell_out h f r x y) [X (Min_pt r)..X (Max_pt r) - 1]))
                 [Y (Min_pt r)..Y (Max_pt r) - 1])))
       \<and> (\<forall>x y. \<not> Pt_In (Pt x y) (Bounds f) \<longrightarrow> shown h f x y = \<lparr>R = 32, C = Color_zero\<rparr>)"
proof -
  have "row_out h f r = (\<lambda>y. CSI @ FormatInt (y + 1) @ '';'' @ FormatInt (X (Min_pt r)) @ ''H''
                   @ concat (map (\<lambda>x. cell_out h f r x y) [X (Min_pt r)..X (Max_pt r) - 1]))"
    by (rule ext) (simp add: row_out_def FormatMoveTo_eq)
  then have "PrintRect pb h f r =
            Inr (concat (map (\<lambda>y. CSI @ FormatInt (y + 1) @ '';'' @ FormatInt (X (Min_pt r)) @ ''H''
                   @ concat (map (\<lambda>x. cell_out h f r x y) [X (Min_pt r)..X (Max_pt r) - 1]))
                 [Y (Min_pt r)..Y (Max_pt r) - 1]))"
    using PrintRect_closed [OF assms(1), of pb h r] assms(2) by simp
  then show ?thesis
    using shown_outside by blast
qed

theorem PrintRect_rows_of_rect_witness:
  "frame_ok frame32
   \<and> (\<exists>cs. PrintRect [] heap32 frame32 (Rect 0 1 3 3) =
            Inr (concat (map (\<lambda>y. CSI @ FormatInt (y + 1) @ '';'' @ cs @ ''H''
                   @ concat (map (\<lambda>x. cell_out heap32 frame32 (Rect 0 1 3 3) x y)
                       [X (Min_pt (Rect 0 1 3 3))..X (Max_pt (Rect 0 1 3 3)) - 1]))
                 [Y (Min_pt (Rect 0 1 3 3))..Y (Max_pt (Rect 0 1 3 3)) - 1])))
   \<and> \<not> Pt_In (Pt 1 2) (Bounds frame32)
   \<and> shown heap32 frame32 1 2 = \<lparr>R = 32, C = Color_zero\<rparr>"
proof -
  have v: "\<forall>x y. Pt_In (Pt x y) (Rect 0 1 3 3) \<longrightarrow> colour_ok (C (shown heap32 frame32 x y))"
    by (simp add: shown_heap32 colour_ok_zero)
  have q: "\<not> Pt_In (Pt 1 2) (Bounds frame32)"
    by (simp add: Pt_In_def Pt_def frame32_def Rect_def)
  show ?thesis
    using PrintRect_rows_of_rect [OF frame32_ok v, of "[]"] frame32_ok q by simp
qed

text \<open>
  Claim C2 as it is stated fails: on the frame with bounds \<open>(0,0)-(3,2)\<close> and the
  rectangle \<open>(0,1)-(3,3)\<close>, whose intersection with the bounds has the single row 1,
  \<open>PrintRect\<close> emits row 1 and row 2, and the cursor sequence of row 1 names column 0,
  where the one-indexed form of column 0 is 1.
\<close>

theorem PrintRect_rows_counterexample:
  "Intersect (Rect 0 1 3 3) (Bounds frame32) = Rect 0 1 3 2
   \<and> PrintRect [] heap32 frame32 (Rect 0 1 3 3) =
       Inr (CHR 0x1B # ''[2;0H   '' @ CHR 0x1B # ''[3;0H   '')
   \<and> FormatMoveTo 2 1 = CHR 0x1B # ''[2;1H''"
proof -
  have "Intersect (Rect 0 1 3 3) (Bounds frame32) = Rect 0 1 3 2"
    by (simp add: Intersect_def Let_def Empty_def Pt_def frame32_def Rect_def)
  moreover have "FormatMoveTo 2 1 = CHR 0x1B # ''[2;1H''"
    by code_simp
  ultimately show ?thesis
    using PrintRect_heap32 [of "[]"] by simp
qed

text \<open>
  Claim C1: the output of the scenario. The frame \<open>(0,0)-(3,2)\<close> is cleared,
  \<open>Set(1, 1, {'X', Color{0, RED, BLACK}})\<close> is applied and the full bounds are printed.
  The output has one colour sequence for red on black, before the \<open>X\<close>, and spaces in
  every other cell, but it begins with the cursor sequence for line 1 and column 0, not
  with the one for line 1 and column 1.
\<close>

theorem scenario_output:
  "scenario =
     Inr (CHR 0x1B # ''[1;0H   '' @ CHR 0x1B # ''[2;0H '' @ CHR 0x1B # ''[0;31;40mX''
          @ CHR 0x1B # ''[0;30;40m '')
   \<and> FormatMoveTo 1 1 = CHR 0x1B # ''[1;1H''"
  by code_simp

section \<open>Placing text\<close>

lemma cursor_Nil: "cursor x [] = x"
  by (simp add: cursor_def)

lemma cursor_Cons: "cursor x (v # vs) = cursor (advance x v) vs"
  by (simp add: cursor_def)

lemma all_take_Cons:
  "(\<forall>k \<le> length (v # pre). cursor x (take k (v # pre)) < m) \<longleftrightarrow>
     x < m \<and> (\<forall>k \<le> length pre. cursor (advance x v) (take k pre) < m)"
proof
  assume a: "\<forall>k \<le> length (v # pre). cursor x (take k (v # pre)) < m"
  from a [rule_format, of 0] have "x < m" by (simp add: cursor_Nil)
  moreover have "cursor (advance x v) (take k pre) < m" if "k \<le> length pre" for k
    using a [rule_format, of "Suc k"] that by (simp add: cursor_Cons)
  ultimately show "x < m \<and> (\<forall>k \<le> length pre. cursor (advance x v) (take k pre) < m)"
    by simp
next
  assume b: "x < m \<and> (\<forall>k \<le> length pre. cursor (advance x v) (take k pre) < m)"
  show "\<forall>k \<le> length (v # pre). cursor x (take k (v # pre)) < m"
  proof (intro allI impI)
    fix k assume "k \<le> length (v # pre)"
    then show "cursor x (take k (v # pre)) < m"
      using b by (cases k) (simp_all add: cursor_Nil cursor_Cons)
  qed
qed

lemma stops_Nil: "\<not> stops_at_other m x []"
  by (simp add: stops_at_other_def)

lemma stops_Other: "stops_at_other m x (Other # vs) \<longleftrightarrow> x < m"
proof
  assume "stops_at_other m x (Other # vs)"
  then obtain pre post where d: "Other # vs = pre @ Other # post" "Other \<notin> set pre"
    and r: "\<forall>k \<le> length pre. cursor x (take k pre) < m"
    by (auto simp: stops_at_other_def)
  from d have "pre = []" by (cases pre) auto
  with r show "x < m" by (simp add: cursor_Nil)
next
  assume "x < m"
  then have "Other # vs = [] @ Other # vs \<and> Other \<notin> set []
        \<and> (\<forall>k \<le> length ([]::item list). cursor x (take k []) < m)"
    by (simp add: cursor_Nil)
  then show "stops_at_other m x (Other # vs)"
    unfolding stops_at_other_def by blast
qed

lemma stops_Cons:
  assumes "v \<noteq> Other"
  shows "stops_at_other m x (v # vs) \<longleftrightarrow> x < m \<and> stops_at_other m (advance x v) vs"
proof
  assume "stops_at_other m x (v # vs)"
  then obtain pre post where d: "v # vs = pre @ Other # post" "Other \<notin> set pre"
    and r: "\<forall>k \<le> length pre. cursor x (take k pre) < m"
    by (auto simp: stops_at_other_def)
  from d assms obtain pre' where p: "pre = v # pre'" "vs = pre' @ Other # post"
    by (cases pre) auto
  from r have "x < m \<and> (\<forall>k \<le> length pre'. cursor (advance x v) (take k pre') < m)"
    unfolding p(1) all_take_Cons .
  with p d(2) show "x < m \<and> stops_at_other m (advance x v) vs"
    unfolding stops_at_other_def by auto
next
  assume a: "x < m \<and> stops_at_other m (advance x v) vs"
  then obtain pre post where d: "vs = pre @ Other # post" "Other \<notin> set pre"
    and r: "\<forall>k \<le> length pre. cursor (advance x v) (take k pre) < m"
    by (auto simp: stops_at_other_def)
  have "\<forall>k \<le> length (v # pre). cursor x (take k (v # pre)) < m"
    unfolding all_take_Cons using a r by simp
  moreover have "v # vs = (v # pre) @ Other # post" "Other \<notin> set (v # pre)"
    using d assms by auto
  ultimately show "stops_at_other m x (v # vs)"
    unfolding stops_at_other_def by blast
qed

lemma PutText_runes_ok:
  "frame_ok f \<Longrightarrow> \<exists>h'. PutText_runes h f x y col s = Inr (h', advance x (Str s))"
proof (induction s arbitrary: h x)
  case Nil
  then show ?case by simp
next
  case (Cons r rs)
  from Set_ok [OF Cons.prems] obtain h1 where s: "Set h f x y \<lparr>R = r, C = col\<rparr> = Inr h1"
    by blast
  from Cons.IH [OF Cons.prems, of h1 "wrap64 (x + 1)"] show ?case
    by (simp add: s)
qed

lemma PutText_items_spec:
  "frame_ok f \<Longrightarrow>
   (PutText_items h f x y col vals = Inl PutText_panic
      \<longleftrightarrow> stops_at_other (X (Max_pt (Bounds f))) x vals)
   \<and> (PutText_items h f x y col vals \<noteq> Inl PutText_panic
      \<longrightarrow> (\<exists>h'. PutText_items h f x y col vals = Inr h'))"
proof (induction vals arbitrary: h x col)
  case Nil
  then show ?case by (simp add: stops_Nil)
next
  case (Cons v vs)
  show ?case
  proof (cases "x \<ge> X (Max_pt (Bounds f))")
    case True
    then have "\<not> stops_at_other (X (Max_pt (Bounds f))) x (v # vs)"
      by (cases "v = Other") (simp_all add: stops_Other stops_Cons)
    with True show ?thesis by simp
  next
    case False
    show ?thesis
    proof (cases v)
      case Other
      with False show ?thesis
        by (simp add: stops_Other PutText_panic_def)
    next
      case (Col c)
      with False Cons.IH [OF Cons.prems, of h x c] show ?thesis
        by (simp add: stops_Cons)
    next
      case (Str s)
      from PutText_runes_ok [OF Cons.prems, of h x y col s] obtain h1 where
        r: "PutText_runes h f x y col s = Inr (h1, advance x (Str s))" ..
      with Str False Cons.IH [OF Cons.prems, of h1 "advance x (Str s)" col] show ?thesis
        by (simp add: stops_Cons)
    qed
  qed
qed

text \<open>
  Claim C10, amended. On a frame that satisfies the invariant, \<open>PutText\<close> panics with its own
  message exactly when the row \<open>y\<close> lies within the vertical bounds and the items are
  \<open>pre\<close>, then a value that is neither a string nor a colour, then \<open>post\<close>, where
  \<open>pre\<close> holds only strings and colours and the running column is below the right
  bound before every item of \<open>pre\<close> and before the offending item. In every other case
  the call returns.
\<close>

theorem PutText_panics:
  assumes "frame_ok f"
  shows "(PutText h f x y vals = Inl PutText_panic \<longleftrightarrow>
            Y (Min_pt (Bounds f)) \<le> y \<and> y < Y (Max_pt (Bounds f))
            \<and> (\<exists>pre post. vals = pre @ Other # post \<and> Other \<notin> set pre
                 \<and> (\<forall>k \<le> length pre. cursor x (take k pre) < X (Max_pt (Bounds f)))))
       \<and> (PutText h f x y vals \<noteq> Inl PutText_panic \<longrightarrow> (\<exists>h'. PutText h f x y vals = Inr h'))"
proof (cases "y < Y (Min_pt (Bounds f)) \<or> y \<ge> Y (Max_pt (Bounds f))")
  case True
  then show ?thesis
    by (auto simp: PutText_def PutText_panic_def)
next
  case False
  then have "PutText h f x y vals = PutText_items h f x y Color_zero vals"
    by (simp add: PutText_def)
  with False PutText_items_spec [OF assms, of h x y Color_zero vals] show ?thesis
    unfolding stops_at_other_def by auto
qed

theorem PutText_panics_witness:
  "frame_ok frame32
   \<and> PutText heap32 frame32 0 0 [Str [97], Col Color_zero, Other] = Inl PutText_panic
   \<and> (\<exists>pre post. [Str [97], Col Color_zero, Other] = pre @ Other # post \<and> Other \<notin> set pre
          \<and> (\<forall>k \<le> length pre. cursor 0 (take k pre) < X (Max_pt (Bounds frame32))))
   \<and> cursor 1 [Str [97, 98]] = 3
   \<and> (\<exists>h'. PutText heap32 frame32 1 0 [Str [97, 98], Other] = Inr h')
   \<and> (\<exists>h'. PutText heap32 frame32 0 5 [Other] = Inr h')"
proof -
  have b: "Y (Min_pt (Bounds frame32)) = 0" "Y (Max_pt (Bounds frame32)) = 2"
    "X (Max_pt (Bounds frame32)) = 3"
    by (simp_all add: frame32_def Rect_def Pt_def)
  have w: "wrap64 1 = 1" "wrap64 2 = 2" "wrap64 3 = 3"
    by (simp_all add: wrap64_def)
  have e1: "PutText heap32 frame32 0 0 [Str [97], Col Color_zero, Other] = Inl PutText_panic"
    by (simp add: PutText_def b Set_ok [OF frame32_ok] w PutText_panic_def)
  have e2: "\<exists>h'. PutText heap32 frame32 1 0 [Str [97, 98], Other] = Inr h'"
    by (simp add: PutText_def b Set_ok [OF frame32_ok] w)
  have e3: "\<exists>h'. PutText heap32 frame32 0 5 [Other] = Inr h'"
    by (simp add: PutText_def b)
  have c: "cursor 1 [Str [97, 98]] = 3"
    by (simp add: cursor_def w)
  show ?thesis
    using PutText_panics [OF frame32_ok, of heap32 0 0 "[Str [97], Col Color_zero, Other]"]
      frame32_ok e1 e2 e3 c
    by simp
qed

section \<open>A frame outside the invariant\<close>

lemma New_big_frame: "New heap0 big_rect = Inr (big_frame, big_heap)"
  by (simp add: New_def Let_def and_then_def make_cells_def Dx_def Dy_def wrap64_def heap0_def
      big_rect_def Pt_def big_frame_def big_heap_def cong: if_cong)

lemma Intersect_big_corner:
  "Intersect big_corner (Bounds big_frame) = big_corner"
  "Intersect (Bounds big_frame) big_corner = big_corner"
  by (simp_all add: Intersect_def Let_def Empty_def big_corner_def big_frame_def big_rect_def Pt_def)

lemma not_Empty_big_corner: "\<not> Empty big_corner"
  by (simp add: Empty_def big_corner_def Pt_def)

lemma SubFrame_big: "SubFrame big_frame big_corner = Inr big_sub"
  by (simp add: SubFrame_def Let_def Intersect_def Empty_def and_then_def slice_from_def
      CellOffset_def wrap64_def big_frame_def big_rect_def big_sub_def big_corner_def Pt_def)

lemma Pt_In_big_sub:
  "Pt_In (Pt (- (2 ^ 62) - 1) (- (2 ^ 62) - 1)) (Bounds big_sub)"
  "Pt_In (Pt (- (2 ^ 62)) (- (2 ^ 62) - 1)) (Bounds big_sub)"
  by (simp_all add: Pt_In_def Pt_def big_sub_def big_corner_def)

lemma Pt_In_big_frame:
  "Pt_In (Pt 0 0) (Bounds big_frame)"
  "Pt_In (Pt (- (2 ^ 62) - 1) (- (2 ^ 62) - 1)) (Bounds big_frame)"
  "Pt_In (Pt (- (2 ^ 62)) (- (2 ^ 62) - 1)) (Bounds big_frame)"
  by (simp_all add: Pt_In_def Pt_def big_frame_def big_rect_def)

lemma Set_big_sub_second:
  "Set h big_sub (- (2 ^ 62)) (- (2 ^ 62) - 1) c = Inl IndexOutOfRange"
  by (simp add: Set_def Pt_In_def index_set_def CellOffset_def wrap64_def big_sub_def
      big_corner_def Pt_def)

lemma Set_big_frame_second:
  "Set h big_frame (- (2 ^ 62)) (- (2 ^ 62) - 1) c = Inl IndexOutOfRange"
  by (simp add: Set_def Pt_In_def index_set_def CellOffset_def wrap64_def big_frame_def
      big_rect_def Pt_def)

lemma Set_big_first:
  "Set h big_sub (- (2 ^ 62) - 1) (- (2 ^ 62) - 1) c = Inr (h\<lparr>mem := (mem h)(0 := c)\<rparr>)"
  "Set h big_frame (- (2 ^ 62) - 1) (- (2 ^ 62) - 1) c = Inr (h\<lparr>mem := (mem h)(0 := c)\<rparr>)"
  by (simp_all add: Set_def Pt_In_def index_set_def CellOffset_def wrap64_def big_sub_def
      big_corner_def big_frame_def big_rect_def Pt_def)

text \<open>
  Claim C4 as it is stated, for every parent frame, fails on the frame \<open>New\<close> builds
  from \<open>big_rect\<close>: its sub-frame for the two cells at the top-left corner has non-empty
  bounds, the second of these cells is inside the bounds of both frames, and \<open>Set\<close>
  there panics through the sub-frame and through the parent.
\<close>

theorem SubFrame_aliasing_counterexample:
  "New heap0 big_rect = Inr (big_frame, big_heap)
   \<and> SubFrame big_frame big_corner = Inr big_sub
   \<and> \<not> Empty (Bounds big_sub)
   \<and> Pt_In (Pt (- (2 ^ 62)) (- (2 ^ 62) - 1)) (Bounds big_sub)
   \<and> Set big_heap big_sub (- (2 ^ 62)) (- (2 ^ 62) - 1) cell_X = Inl IndexOutOfRange
   \<and> Set big_heap big_frame (- (2 ^ 62)) (- (2 ^ 62) - 1) cell_X = Inl IndexOutOfRange"
proof -
  have e: "\<not> Empty (Bounds big_sub)"
    using not_Empty_big_corner by (simp add: big_sub_def)
  show ?thesis
    by (intro conjI New_big_frame SubFrame_big e Pt_In_big_sub(2) Set_big_sub_second
        Set_big_frame_second)
qed

text \<open>
  Claim C6 as it is stated, for every frame, fails on the frame \<open>New\<close> builds from
  \<open>big_rect\<close>: the point \<open>(0, 0)\<close> is inside the bounds and both \<open>Set\<close> and \<open>At\<close>
  panic there.
\<close>

theorem At_Set_counterexample:
  "New heap0 big_rect = Inr (big_frame, big_heap)
   \<and> Pt_In (Pt 0 0) (Bounds big_frame)
   \<and> Set big_heap big_frame 0 0 cell_X = Inl IndexOutOfRange
   \<and> At big_heap big_frame 0 0 = Inl IndexOutOfRange"
proof -
  have o: "CellOffset big_frame 0 0 = 2"
    by (simp add: CellOffset_def big_frame_def big_rect_def Pt_def wrap64_def)
  show ?thesis
    using Pt_In_big_frame(1)
    by (simp add: New_big_frame Set_def At_def index_set_def index_get_def o) (simp add: big_frame_def)
qed

text \<open>
  Claim C7 as it is stated, for every frame, fails on the frame \<open>New\<close> builds from
  \<open>big_rect\<close>: \<open>FillRect\<close> on the two cells at the top-left corner, which lie inside
  the bounds, panics at the second cell.
\<close>

theorem FillRect_counterexample:
  "New heap0 big_rect = Inr (big_frame, big_heap)
   \<and> Intersect (Bounds big_frame) big_corner = big_corner
   \<and> Pt_In (Pt (- (2 ^ 62)) (- (2 ^ 62) - 1)) big_corner
   \<and> FillRect big_heap big_frame big_corner cell_X = Inl IndexOutOfRange"
proof -
  have b: "X (Min_pt big_corner) = - (2 ^ 62) - 1" "X (Max_pt big_corner) = - (2 ^ 62) + 1"
    "Y (Min_pt big_corner) = - (2 ^ 62) - 1" "Y (Max_pt big_corner) = - (2 ^ 62)"
    by (simp_all add: big_corner_def Pt_def)
  have c2: "FillRect_cols h big_frame big_corner cell_X (- (2 ^ 62) - 1) (- (2 ^ 62))
            = Inl IndexOutOfRange" for h
    using Set_big_frame_second [of h cell_X]
    by (subst FillRect_cols.simps) (simp add: b)
  have c: "FillRect_cols big_heap big_frame big_corner cell_X (- (2 ^ 62) - 1) (- (2 ^ 62) - 1)
            = Inl IndexOutOfRange"
    using Set_big_first(2) [of big_heap cell_X] c2
    by (subst FillRect_cols.simps) (simp add: b)
  have r: "FillRect_rows big_heap big_frame big_corner cell_X (- (2 ^ 62) - 1) = Inl IndexOutOfRange"
    using c by (subst FillRect_rows.simps) (simp add: b)
  have "FillRect big_heap big_frame big_corner cell_X = Inl IndexOutOfRange"
    using not_Empty_big_corner r
    by (simp add: FillRect_def Let_def Intersect_big_corner b)
  moreover have "Pt_In (Pt (- (2 ^ 62)) (- (2 ^ 62) - 1)) big_corner"
    by (simp add: Pt_In_def Pt_def big_corner_def)
  ultimately show ?thesis
    by (intro conjI New_big_frame Intersect_big_corner(2))
qed


text \<open>
  Claim C8 as it is stated, for every render, fails on the frame \<open>New\<close> builds from
  \<open>big_rect\<close>: \<open>PrintRect\<close> over the two cells at the top-left corner panics at the
  second cell and writes nothing.
\<close>

theorem PrintRect_counterexample:
  "New heap0 big_rect = Inr (big_frame, big_heap)
   \<and> Pt_In (Pt (- (2 ^ 62)) (- (2 ^ 62) - 1)) (Bounds big_frame)
   \<and> PrintRect [] big_heap big_frame big_corner = Inl IndexOutOfRange"
proof -
  have "PrintRect [] big_heap big_frame big_corner = Inl IndexOutOfRange"
    by (simp add: PrintRect_def PrintRect_rows.simps PrintRect_cols.simps PrintRect_cell_def
        At_def Pt_In_def index_get_def CellOffset_def wrap64_def big_frame_def big_rect_def
        big_corner_def big_heap_def heap0_def Pt_def Cell_zero_def Color_zero_def)
  then show ?thesis
    by (intro conjI New_big_frame Pt_In_big_frame(3))
qed

text \<open>
  Claim C10 as it is stated fails on the sub-frame of that frame for the two cells at
  the top-left corner: after the string of two runes the column has reached the right
  bound, so the value of another type that follows is never examined, but the call does
  not return: the second rune is written inside the bounds and \<open>Set\<close> panics.
\<close>

theorem PutText_counterexample:
  "New heap0 big_rect = Inr (big_frame, big_heap)
   \<and> SubFrame big_frame big_corner = Inr big_sub
   \<and> cursor (- (2 ^ 62) - 1) [Str [97, 98]] = X (Max_pt (Bounds big_sub))
   \<and> PutText big_heap big_sub (- (2 ^ 62) - 1) (- (2 ^ 62) - 1) [Str [97, 98], Other]
       = Inl IndexOutOfRange"
proof -
  have c: "cursor (- (2 ^ 62) - 1) [Str [97, 98]] = X (Max_pt (Bounds big_sub))"
    by (simp add: cursor_def wrap64_def big_sub_def big_corner_def Pt_def)
  have p: "PutText big_heap big_sub (- (2 ^ 62) - 1) (- (2 ^ 62) - 1) [Str [97, 98], Other]
       = Inl IndexOutOfRange"
    by (simp add: PutText_def Set_def Pt_In_def index_set_def CellOffset_def wrap64_def
        big_sub_def big_corner_def Pt_def)
  show ?thesis
    by (intro conjI New_big_frame SubFrame_big c p)
qed

end
